theory Spec2Isabelle
  imports Complex_Main
begin

section \<open>JavaScript values used by App.tsx\<close>

text \<open>
  A JavaScript string is a sequence of code units and \<open>length\<close> counts them. The slice
  helper is kept polymorphic in the code unit; the engine works on \<^typ>\<open>string\<close>, whose
  characters stand for the code units of the (ASCII) words of the page.
  Step counts, \<open>sub\<close> and string lengths are integer-valued numbers: \<^typ>\<open>int\<close>.
  Durations in milliseconds are \<^typ>\<open>rat\<close>: the only arithmetic on them is \<open>speed * 0.5\<close>
  and the addition of a delay to the clock, both exact.
\<close>

datatype js_error = TypeError

text \<open>\<open>String.prototype.slice(start, end)\<close> on integer arguments: a negative argument counts
  from the end, both are clamped into the string, an empty range gives the empty string.\<close>

definition js_slice :: "'u list \<Rightarrow> int \<Rightarrow> int \<Rightarrow> 'u list" where
  "js_slice xs start fin =
     (let len = int (length xs);
          from = (if start < 0 then max (len + start) 0 else min start len);
          to = (if fin < 0 then max (len + fin) 0 else min fin len)
      in take (nat (to - from)) (drop (nat from) xs))"

section \<open>The pure helper\<close>

text \<open>
  \<^verbatim>\<open>
  export function simulateTypewriter(word: string, steps: number) {
    const s = Math.min(Math.max(steps, 0), word.length);
    return word.slice(0, s);
  }
  \<close>
\<close>

definition simulateTypewriter :: "'u list \<Rightarrow> int \<Rightarrow> 'u list" where
  "simulateTypewriter word steps =
     (let s = min (max steps 0) (int (length word)) in js_slice word 0 s)"

text \<open>The spec's \<open>clamp(x, lo, hi)\<close>, used only to state the contract of the helper.\<close>

definition clamp :: "int \<Rightarrow> int \<Rightarrow> int \<Rightarrow> int" where
  "clamp x lo hi = (if x < lo then lo else if hi < x then hi else x)"

section \<open>The Typewriter component\<close>

datatype dir = Fwd | Back

text \<open>The props. \<open>speed\<close> and \<open>hold\<close> are optional with defaults 90 and 1200; the two
  callbacks are optional with no default. A callback is a value of an arbitrary type \<open>'c\<close>;
  invoking it appends it to the trace \<open>calls\<close> below.\<close>

record 'c props =
  words :: "string list"
  speed :: "rat option"
  hold :: "rat option"
  onFirstKeystroke :: "'c option"
  onFirstWordComplete :: "'c option"

definition speed_of :: "'c props \<Rightarrow> rat" where
  "speed_of p = (case speed p of None \<Rightarrow> 90 | Some v \<Rightarrow> v)"

definition hold_of :: "'c props \<Rightarrow> rat" where
  "hold_of p = (case hold p of None \<Rightarrow> 1200 | Some v \<Rightarrow> v)"

text \<open>The five \<open>useState\<close> cells of the component, and the trace of the callbacks it has
  invoked so far (the trace is the component's effect on its caller, not React state).\<close>

record 'c tw =
  index :: nat
  sub :: int
  dir :: dir
  hasTypedOnce :: bool
  firstWordDone :: bool
  calls :: "'c list"

definition init :: "'c tw" where
  "init = \<lparr>index = 0, sub = 0, dir = Fwd, hasTypedOnce = False, firstWordDone = False,
           calls = []\<rparr>"

text \<open>\<open>cb?.()\<close>: an absent callback is skipped, a present one is invoked.\<close>

definition opt_call :: "'c option \<Rightarrow> 'c tw \<Rightarrow> 'c tw" where
  "opt_call cb s = (case cb of None \<Rightarrow> s | Some c \<Rightarrow> s\<lparr>calls := calls s @ [c]\<rparr>)"

text \<open>\<open>const current = words[index % words.length]\<close>. On an empty list the remainder is
  \<open>NaN\<close> and the element read is \<open>undefined\<close>: \<open>None\<close>.\<close>

definition current :: "'c props \<Rightarrow> nat \<Rightarrow> string option" where
  "current p i = (if words p = [] then None else Some (words p ! (i mod length (words p))))"

text \<open>The body of the first effect, which React runs after a render in which
  \<open>hasTypedOnce\<close>, \<open>sub\<close> or the callback changed. The body is guarded by the same two cells,
  so running it after every render changes nothing.\<close>

definition keystroke_effect :: "'c props \<Rightarrow> 'c tw \<Rightarrow> 'c tw" where
  "keystroke_effect p s =
     (if \<not> hasTypedOnce s \<and> sub s > 0
      then opt_call (onFirstKeystroke p) (s\<lparr>hasTypedOnce := True\<rparr>)
      else s)"

text \<open>The callback given to \<open>useInterval\<close>, with \<open>current\<close> as captured by the render.\<close>

definition on_interval :: "'c props \<Rightarrow> string \<Rightarrow> 'c tw \<Rightarrow> 'c tw" where
  "on_interval p cur s =
     (if dir s = Fwd then
        (if sub s < int (length cur) then s\<lparr>sub := sub s + 1\<rparr>
         else
           (let s1 = (if \<not> firstWordDone s \<and> index s = 0
                      then opt_call (onFirstWordComplete p) (s\<lparr>firstWordDone := True\<rparr>)
                      else s)
            in s1\<lparr>dir := Back\<rparr>))
      else
        (if sub s > 0 then s\<lparr>sub := sub s - 1\<rparr>
         else s\<lparr>dir := Fwd, index := index s + 1\<rparr>))"

text \<open>The delay given to \<open>useInterval\<close>: \<open>dir === "fwd" ? speed : speed * 0.5\<close>.\<close>

definition interval_delay :: "'c props \<Rightarrow> dir \<Rightarrow> rat" where
  "interval_delay p d = (if d = Fwd then speed_of p else speed_of p * (1 / 2))"

text \<open>The hold effect sets its timeout when \<open>dir === "fwd" && sub === current.length\<close>; the
  timeout's callback is \<open>setDir("back")\<close>.\<close>

definition hold_armed :: "string \<Rightarrow> 'c tw \<Rightarrow> bool" where
  "hold_armed cur s = (dir s = Fwd \<and> sub s = int (length cur))"

definition on_hold_timeout :: "'c tw \<Rightarrow> 'c tw" where
  "on_hold_timeout s = s\<lparr>dir := Back\<rparr>"

text \<open>What a render produces: the dependency array of the hold effect
  \<open>[dir, sub, current.length, hold]\<close>, the delay handed to \<open>useInterval\<close>, and the text
  \<open>current.slice(0, sub)\<close>. Reading \<open>current.length\<close> of \<open>undefined\<close> throws.\<close>

record rendered =
  hold_deps :: "dir \<times> int \<times> int \<times> rat"
  delay :: rat
  text_shown :: string

definition Typewriter :: "'c props \<Rightarrow> 'c tw \<Rightarrow> js_error + rendered" where
  "Typewriter p s =
     (case current p (index s) of
        None \<Rightarrow> Inl TypeError
      | Some cur \<Rightarrow>
          Inr \<lparr>hold_deps = (dir s, sub s, int (length cur), hold_of p),
               delay = interval_delay p (dir s),
               text_shown = js_slice cur 0 (sub s)\<rparr>)"

text \<open>The first render and the effects after it. A render that throws creates nothing: no
  state, no interval, no timeout.\<close>

definition mount :: "'c props \<Rightarrow> js_error + 'c tw" where
  "mount p = (case Typewriter p init of Inl e \<Rightarrow> Inl e | Inr _ \<Rightarrow> Inr (keystroke_effect p init))"

text \<open>The two timers of a mounted component. A timer event runs its callback on the state of
  the last render, React renders again and runs the effects. The hold timeout is pending
  exactly while the hold effect's condition holds on the last render (any change of \<open>dir\<close>,
  \<open>sub\<close> or the word length cleans the effect up and clears the timeout), so a
  \<open>HoldTimeout\<close> in any other state is no event of the program and leaves the state as it is.
  \<open>step\<close> is the schedule in which React commits the render and runs its effects before
  the next timer callback, so that every callback is the closure of the state it updates;
  \<open>ticks_before_commit\<close> below is the schedule in which it does not.\<close>

datatype event = Tick | HoldTimeout

definition step :: "'c props \<Rightarrow> event \<Rightarrow> 'c tw \<Rightarrow> js_error + 'c tw" where
  "step p ev s =
     (case current p (index s) of
        None \<Rightarrow> Inl TypeError
      | Some cur \<Rightarrow>
          (let s1 = (case ev of
                       Tick \<Rightarrow> on_interval p cur s
                     | HoldTimeout \<Rightarrow> if hold_armed cur s then on_hold_timeout s else s)
           in case Typewriter p s1 of
                Inl e \<Rightarrow> Inl e
              | Inr _ \<Rightarrow> Inr (keystroke_effect p s1)))"

fun run :: "'c props \<Rightarrow> event list \<Rightarrow> 'c tw \<Rightarrow> js_error + 'c tw" where
  "run p [] s = Inr s"
| "run p (ev # evs) s = (case step p ev s of Inl e \<Rightarrow> Inl e | Inr s' \<Rightarrow> run p evs s')"

definition engine :: "'c props \<Rightarrow> event list \<Rightarrow> js_error + 'c tw" where
  "engine p evs = (case mount p of Inl e \<Rightarrow> Inl e | Inr s \<Rightarrow> run p evs s)"

text \<open>
  The interval runs \<open>saved.current()\<close>, the callback of the last render whose effect
  \<open>saved.current = cb\<close> has run. Its guards read the cells that render captured (\<open>cl\<close>);
  its updates act on the live cells (\<open>s\<close>): \<open>setSub((s) => s + 1)\<close>, \<open>setSub((s) => s - 1)\<close>
  and \<open>setIndex((i) => i + 1)\<close> relative to them, \<open>setDir\<close> and \<open>setFirstWordDone\<close>
  absolutely. \<open>cur\<close> is the word the render captured. When the captured and the live
  cells are the same, this is \<open>on_interval\<close>.
\<close>

definition on_interval_closure :: "'c props \<Rightarrow> string \<Rightarrow> 'c tw \<Rightarrow> 'c tw \<Rightarrow> 'c tw" where
  "on_interval_closure p cur cl s =
     (if dir cl = Fwd then
        (if sub cl < int (length cur) then s\<lparr>sub := sub s + 1\<rparr>
         else
           (let s1 = (if \<not> firstWordDone cl \<and> index cl = 0
                      then opt_call (onFirstWordComplete p) (s\<lparr>firstWordDone := True\<rparr>)
                      else s)
            in s1\<lparr>dir := Back\<rparr>))
      else
        (if sub cl > 0 then s\<lparr>sub := sub s - 1\<rparr>
         else s\<lparr>dir := Fwd, index := index s + 1\<rparr>))"

text \<open>\<open>n\<close> callbacks of the interval on one closure, before React commits a render and
  refreshes \<open>saved.current\<close>; then the commit: the render and the effects.\<close>

fun callbacks_on_closure :: "'c props \<Rightarrow> string \<Rightarrow> 'c tw \<Rightarrow> nat \<Rightarrow> 'c tw \<Rightarrow> 'c tw" where
  "callbacks_on_closure p cur cl 0 s = s"
| "callbacks_on_closure p cur cl (Suc n) s =
     callbacks_on_closure p cur cl n (on_interval_closure p cur cl s)"

definition ticks_before_commit :: "'c props \<Rightarrow> nat \<Rightarrow> 'c tw \<Rightarrow> js_error + 'c tw" where
  "ticks_before_commit p n s =
     (case current p (index s) of
        None \<Rightarrow> Inl TypeError
      | Some cur \<Rightarrow>
          (let s1 = callbacks_on_closure p cur s n s
           in case Typewriter p s1 of
                Inl e \<Rightarrow> Inl e
              | Inr _ \<Rightarrow> Inr (keystroke_effect p s1)))"

text \<open>The state the spec calls TypewriterState, with the index as the component reads it,
  and the text on the screen.\<close>

definition shown :: "'c props \<Rightarrow> 'c tw \<Rightarrow> string" where
  "shown p s = (case Typewriter p s of Inl _ \<Rightarrow> [] | Inr r \<Rightarrow> text_shown r)"

definition view :: "'c props \<Rightarrow> 'c tw \<Rightarrow> nat \<times> int \<times> dir \<times> string" where
  "view p s = (index s mod length (words p), sub s, dir s, shown p s)"

text \<open>The invariant of the spec's data model: \<open>sub\<close> lies between 0 and the length of the
  active word.\<close>

definition bounded :: "'c props \<Rightarrow> 'c tw \<Rightarrow> bool" where
  "bounded p s =
     (case current p (index s) of
        None \<Rightarrow> False
      | Some cur \<Rightarrow> 0 \<le> sub s \<and> sub s \<le> int (length cur))"

text \<open>Each callback has been invoked once if its flag is set and not at all otherwise.\<close>

definition once :: "'c \<Rightarrow> 'c \<Rightarrow> 'c tw \<Rightarrow> bool" where
  "once k c s \<longleftrightarrow>
     count_list (calls s) k = (if hasTypedOnce s then 1 else 0)
     \<and> count_list (calls s) c = (if firstWordDone s then 1 else 0)"

text \<open>The word list of the spec's scenarios, with both callbacks supplied.\<close>

abbreviation feed_events :: "rat option \<Rightarrow> rat option \<Rightarrow> 'c \<Rightarrow> 'c \<Rightarrow> 'c props" where
  "feed_events sp h k c \<equiv>
     \<lparr>words = [''feed'', ''events''], speed = sp, hold = h,
      onFirstKeystroke = Some k, onFirstWordComplete = Some c\<rparr>"

text \<open>Two states that show the same: the same position in the list, the same \<open>sub\<close> and
  direction.\<close>

definition same_view :: "'c props \<Rightarrow> 'c tw \<Rightarrow> 'c tw \<Rightarrow> bool" where
  "same_view p s t \<longleftrightarrow>
     index s mod length (words p) = index t mod length (words p)
     \<and> sub s = sub t \<and> dir s = dir t"

text \<open>A list of two words, with any timing and any callbacks.\<close>

abbreviation two_words ::
  "string \<Rightarrow> string \<Rightarrow> rat option \<Rightarrow> rat option \<Rightarrow> 'c option \<Rightarrow> 'c option \<Rightarrow> 'c props" where
  "two_words a b sp h k c \<equiv>
     \<lparr>words = [a, b], speed = sp, hold = h, onFirstKeystroke = k, onFirstWordComplete = c\<rparr>"

text \<open>The five state cells without the trace.\<close>

definition cells :: "'c tw \<Rightarrow> nat \<times> int \<times> dir \<times> bool \<times> bool" where
  "cells s = (index s, sub s, dir s, hasTypedOnce s, firstWordDone s)"

section \<open>The component on the clock\<close>

text \<open>
  The component owns two timers: the interval of \<open>useInterval\<close> and the timeout of the hold
  effect. The clock is in milliseconds. A timer runs exactly when it is due, and a render
  with its effects takes no time. \<open>interval_due\<close> is the next run of the interval,
  \<open>timeout_due\<close> the pending hold timeout, if any.
\<close>

record 'c timed =
  state :: "'c tw"
  clock :: rat
  interval_due :: rat
  timeout_due :: "rat option"

text \<open>The body of the hold effect, run at time \<open>t\<close> on the dependency array of a render:
  \<open>if (dir === "fwd" && sub === current.length) setTimeout(() => setDir("back"), hold)\<close>.\<close>

definition hold_effect :: "rat \<Rightarrow> rendered \<Rightarrow> rat option" where
  "hold_effect t r =
     (case hold_deps r of (d, sb, len, h) \<Rightarrow> if d = Fwd \<and> sb = len then Some (t + h) else None)"

text \<open>Mounting at time 0: \<open>setInterval\<close> with the delay of the first render, and the hold
  effect.\<close>

definition mount_timed :: "'c props \<Rightarrow> js_error + 'c timed" where
  "mount_timed p =
     (case mount p of
        Inl e \<Rightarrow> Inl e
      | Inr s \<Rightarrow>
          (case Typewriter p s of
             Inl e \<Rightarrow> Inl e
           | Inr r \<Rightarrow>
               Inr \<lparr>state = s, clock = 0, interval_due = delay r, timeout_due = hold_effect 0 r\<rparr>))"

text \<open>The timer that runs next: the hold timeout if it is due before the interval, the
  interval otherwise (the interval was set first, and runs first when both are due at the
  same instant).\<close>

definition next_event :: "'c timed \<Rightarrow> event \<times> rat" where
  "next_event t =
     (case timeout_due t of
        None \<Rightarrow> (Tick, interval_due t)
      | Some h \<Rightarrow> if h < interval_due t then (HoldTimeout, h) else (Tick, interval_due t))"

text \<open>
  One timer event. The callback runs and React renders. \<open>useInterval\<close> depends on
  \<open>[delay]\<close>: when the delay of the new render differs, the interval is cleared and set
  again from now; otherwise it keeps its period. The hold effect depends on
  \<open>[dir, sub, current.length, hold]\<close>: when they differ, its cleanup clears the timeout
  and its body runs again.
\<close>

definition timed_step :: "'c props \<Rightarrow> 'c timed \<Rightarrow> js_error + 'c timed" where
  "timed_step p t =
     (case next_event t of (ev, due) \<Rightarrow>
        (case Typewriter p (state t) of
           Inl e \<Rightarrow> Inl e
         | Inr r \<Rightarrow>
             (case step p ev (state t) of
                Inl e \<Rightarrow> Inl e
              | Inr s' \<Rightarrow>
                  (case Typewriter p s' of
                     Inl e \<Rightarrow> Inl e
                   | Inr r' \<Rightarrow>
                       Inr \<lparr>state = s', clock = due,
                            interval_due =
                              (if delay r' \<noteq> delay r then due + delay r'
                               else if ev = Tick then interval_due t + delay r
                               else interval_due t),
                            timeout_due =
                              (if hold_deps r' \<noteq> hold_deps r then hold_effect due r'
                               else if ev = HoldTimeout then None
                               else timeout_due t)\<rparr>))))"

fun timed_run :: "'c props \<Rightarrow> nat \<Rightarrow> 'c timed \<Rightarrow> js_error + 'c timed" where
  "timed_run p 0 t = Inr t"
| "timed_run p (Suc n) t = (case timed_step p t of Inl e \<Rightarrow> Inl e | Inr t' \<Rightarrow> timed_run p n t')"

definition timed_engine :: "'c props \<Rightarrow> nat \<Rightarrow> js_error + 'c timed" where
  "timed_engine p n = (case mount_timed p of Inl e \<Rightarrow> Inl e | Inr t \<Rightarrow> timed_run p n t)"

section \<open>The page\<close>

text \<open>
  \<^verbatim>\<open>
  const words = useMemo(() => ["feed", "events", "story", "lore"], []);
  <Typewriter words={words} speed={300} hold={2000}
    onFirstKeystroke={onFirstKeystroke} onFirstWordComplete={onFirstWordComplete} />
  \<close>
\<close>

definition CampusLanding_words :: "string list" where
  "CampusLanding_words = [''feed'', ''events'', ''story'', ''lore'']"

definition CampusLanding_Typewriter :: "'c \<Rightarrow> 'c \<Rightarrow> 'c props" where
  "CampusLanding_Typewriter k c =
     \<lparr>words = CampusLanding_words, speed = Some 300, hold = Some 2000,
      onFirstKeystroke = Some k, onFirstWordComplete = Some c\<rparr>"

text \<open>
  The intro effect of \<open>CampusLanding\<close>, run once at mount (time 0):
  \<^verbatim>\<open>
  const [phase, setPhase] = useState<"whatif" | "dots" | "typing">("whatif");
  const t1 = window.setTimeout(() => setPhase("dots"), 1200);
  const t2 = window.setTimeout(() => setPhase("typing"), 2200);
  \<close>
  A timeout is a pair of its delay and the phase it sets; \<open>intro_timers\<close> is the effect
  with the two delays as parameters.
\<close>

datatype phase = Whatif | Dots | Typing

definition intro_timers :: "rat \<Rightarrow> rat \<Rightarrow> (rat \<times> phase) list" where
  "intro_timers d1 d2 = [(d1, Dots), (d2, Typing)]"

definition CampusLanding_intro :: "(rat \<times> phase) list" where
  "CampusLanding_intro = intro_timers 1200 2200"

text \<open>The timeouts that have run by time \<open>t\<close>, in the order they ran (a negative delay
  counts as 0), the phases the page has been in, and the phase it is in.\<close>

definition fired_by :: "(rat \<times> phase) list \<Rightarrow> rat \<Rightarrow> (rat \<times> phase) list" where
  "fired_by timers t =
     sort_key (\<lambda>(d, ph). max d 0) (filter (\<lambda>(d, ph). max d 0 \<le> t) timers)"

definition phase_history :: "(rat \<times> phase) list \<Rightarrow> rat \<Rightarrow> phase list" where
  "phase_history timers t = Whatif # map snd (fired_by timers t)"

definition phase_at :: "(rat \<times> phase) list \<Rightarrow> rat \<Rightarrow> phase" where
  "phase_at timers t = last (phase_history timers t)"

fun phase_rank :: "phase \<Rightarrow> nat" where
  "phase_rank Whatif = 0"
| "phase_rank Dots = 1"
| "phase_rank Typing = 2"

section \<open>The pure helper: the prefix of clamped length\<close>

lemma js_slice_prefix: "0 \<le> n \<Longrightarrow> n \<le> int (length xs) \<Longrightarrow> js_slice xs 0 n = take (nat n) xs"
  by (simp add: js_slice_def Let_def)

text \<open>
  C1. For every string \<open>w\<close> and every integer \<open>s\<close>, \<open>simulateTypewriter w s\<close> is the prefix
  of \<open>w\<close> of length \<open>clamp s 0 (length w)\<close>: a negative \<open>s\<close> gives the empty string, an \<open>s\<close>
  beyond the length gives the whole word. It is a function, defined on every input. On
  \<open>feed\<close> the steps 0, 2, 4 and 99 give the empty string, \<open>fe\<close>, \<open>feed\<close> and \<open>feed\<close>.
\<close>

theorem simulateTypewriter_prefix:
  "simulateTypewriter w s = take (nat (clamp s 0 (int (length w)))) w
   \<and> int (length (simulateTypewriter w s)) = clamp s 0 (int (length w))
   \<and> simulateTypewriter ''feed'' 0 = ''''
   \<and> simulateTypewriter ''feed'' 2 = ''fe''
   \<and> simulateTypewriter ''feed'' 4 = ''feed''
   \<and> simulateTypewriter ''feed'' 99 = ''feed''"
proof -
  have c: "min (max s 0) (int (length w)) = clamp s 0 (int (length w))"
    by (simp add: clamp_def)
  have b: "0 \<le> clamp s 0 (int (length w))" "clamp s 0 (int (length w)) \<le> int (length w)"
    by (simp_all add: clamp_def)
  have g: "simulateTypewriter w s = take (nat (clamp s 0 (int (length w)))) w"
    by (simp add: simulateTypewriter_def Let_def c js_slice_prefix [OF b])
  have l: "int (length (simulateTypewriter w s)) = clamp s 0 (int (length w))"
    using b by (simp add: g)
  have e: "simulateTypewriter ''feed'' 0 = ''''" "simulateTypewriter ''feed'' 2 = ''fe''"
    "simulateTypewriter ''feed'' 4 = ''feed''" "simulateTypewriter ''feed'' 99 = ''feed''"
    by (simp_all add: simulateTypewriter_def js_slice_def Let_def)
  from g l e show ?thesis by simp
qed

section \<open>The engine\<close>

lemmas engine_eval =
  engine_def mount_def step_def Typewriter_def current_def init_def keystroke_effect_def
  on_interval_def on_hold_timeout_def hold_armed_def opt_call_def shown_def view_def
  js_slice_def Let_def

lemma current_Some: "words p \<noteq> [] \<Longrightarrow> current p i = Some (words p ! (i mod length (words p)))"
  by (simp add: current_def)

lemma current_None: "current p i = None \<longleftrightarrow> words p = []"
  by (simp add: current_def)

lemma Typewriter_Inr: "words p \<noteq> [] \<Longrightarrow> \<exists>r. Typewriter p s = Inr r"
  by (simp add: Typewriter_def current_def)

lemma step_Inr:
  "words p \<noteq> [] \<Longrightarrow>
   step p ev s = Inr (keystroke_effect p
     (case ev of Tick \<Rightarrow> on_interval p (words p ! (index s mod length (words p))) s
      | HoldTimeout \<Rightarrow> if hold_armed (words p ! (index s mod length (words p))) s
                       then on_hold_timeout s else s))"
  by (simp add: step_def current_def Typewriter_def Let_def)

lemma step_words: "step p ev s = Inr s' \<Longrightarrow> words p \<noteq> []"
  by (auto simp: step_def current_def split: if_splits)

lemma mount_Inr: "words p \<noteq> [] \<Longrightarrow> mount p = Inr init"
  by (simp add: mount_def Typewriter_def current_def keystroke_effect_def init_def)

lemma run_append:
  "run p (xs @ ys) s = (case run p xs s of Inl e \<Rightarrow> Inl e | Inr s' \<Rightarrow> run p ys s')"
  by (induction xs arbitrary: s) (auto split: sum.splits)

lemma run_Inr: "words p \<noteq> [] \<Longrightarrow> \<exists>s'. run p evs s = Inr s'"
  by (induction evs arbitrary: s) (auto simp: step_Inr)

lemma bounded_iff:
  "bounded p s \<longleftrightarrow>
     words p \<noteq> [] \<and> 0 \<le> sub s \<and> sub s \<le> int (length (words p ! (index s mod length (words p))))"
  by (simp add: bounded_def current_def)

lemma bounded_words: "bounded p s \<Longrightarrow> words p \<noteq> []"
  by (simp add: bounded_iff)

lemma bounded_init: "words p \<noteq> [] \<Longrightarrow> bounded p init"
  by (simp add: bounded_iff init_def)

lemma keystroke_effect_fields [simp]:
  "index (keystroke_effect p s) = index s"
  "sub (keystroke_effect p s) = sub s"
  "dir (keystroke_effect p s) = dir s"
  "firstWordDone (keystroke_effect p s) = firstWordDone s"
  by (simp_all add: keystroke_effect_def opt_call_def split: option.splits)

lemma bounded_keystroke [simp]: "bounded p (keystroke_effect p s) = bounded p s"
  by (simp add: bounded_iff)

lemma bounded_on_interval:
  assumes "bounded p s"
  shows "bounded p (on_interval p (words p ! (index s mod length (words p))) s)"
  using assms
  by (auto simp: bounded_iff on_interval_def opt_call_def Let_def split: option.splits)

lemma bounded_step:
  assumes "bounded p s"
  shows "\<exists>s'. step p ev s = Inr s' \<and> bounded p s'"
proof -
  have w: "words p \<noteq> []" using assms by (rule bounded_words)
  show ?thesis
  proof (cases ev)
    case Tick
    then show ?thesis using assms w by (simp add: step_Inr bounded_on_interval)
  next
    case HoldTimeout
    have "bounded p (on_hold_timeout s)"
      using assms by (simp add: bounded_iff on_hold_timeout_def)
    then show ?thesis using HoldTimeout assms w
      by (simp add: step_Inr)
  qed
qed

lemma bounded_run:
  "bounded p s \<Longrightarrow> \<exists>s'. run p evs s = Inr s' \<and> bounded p s'"
proof (induction evs arbitrary: s)
  case Nil
  then show ?case by simp
next
  case (Cons ev evs)
  from bounded_step [OF Cons.prems] obtain s1 where s1: "step p ev s = Inr s1" "bounded p s1"
    by blast
  from Cons.IH [OF s1(2)] s1(1) show ?case by simp
qed

text \<open>
  The bounds on the schedule of \<open>step\<close>, with a commit between any two timer callbacks:
  in every state reached from the initial state by ticks and hold timeouts, in any order,
  \<open>sub\<close> is at least 0 and at most the length of the active word, the word at \<open>index\<close>
  modulo the length of the list; and every such transition, from any state within these
  bounds, leads to a state within them.
\<close>

theorem bounds_invariant:
  assumes "words p \<noteq> []"
  shows "(\<exists>s. engine p evs = Inr s \<and> bounded p s)
       \<and> (\<forall>s ev. bounded p s \<longrightarrow> (\<exists>s'. step p ev s = Inr s' \<and> bounded p s'))"
proof -
  have "\<exists>s. engine p evs = Inr s \<and> bounded p s"
    using bounded_run [OF bounded_init [OF assms], of evs] assms
    by (simp add: engine_def mount_Inr)
  then show ?thesis using bounded_step by blast
qed


lemma step_Tick_core:
  assumes "words p \<noteq> []"
  shows "\<exists>s'. step p Tick s = Inr s' \<and>
    (index s', sub s', dir s') =
      (if dir s = Fwd then
         if sub s < int (length (words p ! (index s mod length (words p))))
         then (index s, sub s + 1, Fwd) else (index s, sub s, Back)
       else if sub s > 0 then (index s, sub s - 1, Back) else (index s + 1, sub s, Fwd))"
  using assms
  by (cases "dir s")
     (auto simp: step_Inr on_interval_def opt_call_def Let_def split: option.splits)

lemma step_flags:
  assumes "step p ev s = Inr s'"
  shows "hasTypedOnce s' = (hasTypedOnce s \<or> 0 < sub s')"
    and "firstWordDone s' =
          (firstWordDone s \<or>
           (ev = Tick \<and> dir s = Fwd \<and> index s = 0
            \<and> \<not> sub s < int (length (words p ! 0))))"
proof -
  have w: "words p \<noteq> []" using assms by (rule step_words)
  have s': "s' = keystroke_effect p
     (case ev of Tick \<Rightarrow> on_interval p (words p ! (index s mod length (words p))) s
      | HoldTimeout \<Rightarrow> if hold_armed (words p ! (index s mod length (words p))) s
                       then on_hold_timeout s else s)"
    using assms w by (simp add: step_Inr)
  show "hasTypedOnce s' = (hasTypedOnce s \<or> 0 < sub s')"
    unfolding s'
    by (cases ev)
       (auto simp: keystroke_effect_def on_interval_def on_hold_timeout_def opt_call_def Let_def
             split: option.splits)
  show "firstWordDone s' =
          (firstWordDone s \<or>
           (ev = Tick \<and> dir s = Fwd \<and> index s = 0
            \<and> \<not> sub s < int (length (words p ! 0))))"
    unfolding s'
    by (cases ev)
       (auto simp: on_interval_def on_hold_timeout_def opt_call_def Let_def
             split: option.splits)
qed

lemma step_calls:
  assumes "step p ev s = Inr s'"
    and "onFirstKeystroke p = Some k" and "onFirstWordComplete p = Some c"
  shows "calls s' = calls s
           @ (if ev = Tick \<and> \<not> firstWordDone s \<and> dir s = Fwd \<and> index s = 0
                 \<and> \<not> sub s < int (length (words p ! 0)) then [c] else [])
           @ (if \<not> hasTypedOnce s \<and> 0 < sub s' then [k] else [])"
proof -
  have w: "words p \<noteq> []" using assms(1) by (rule step_words)
  have s': "s' = keystroke_effect p
     (case ev of Tick \<Rightarrow> on_interval p (words p ! (index s mod length (words p))) s
      | HoldTimeout \<Rightarrow> if hold_armed (words p ! (index s mod length (words p))) s
                       then on_hold_timeout s else s)"
    using assms(1) w by (simp add: step_Inr)
  show ?thesis
    unfolding s' using assms(2,3)
    by (cases ev)
       (auto simp: keystroke_effect_def on_interval_def on_hold_timeout_def opt_call_def Let_def)
qed

lemma once_step:
  assumes "step p ev s = Inr s'"
    and "onFirstKeystroke p = Some k" and "onFirstWordComplete p = Some c" and "k \<noteq> c"
    and "once k c s"
  shows "once k c s'"
  using assms(4,5) step_flags [OF assms(1)]
  by (auto simp: once_def step_calls [OF assms(1,2,3)])

lemma once_run:
  assumes "onFirstKeystroke p = Some k" and "onFirstWordComplete p = Some c" and "k \<noteq> c"
  shows "run p evs s = Inr s' \<Longrightarrow> once k c s \<Longrightarrow> once k c s'"
proof (induction evs arbitrary: s)
  case Nil
  then show ?case by simp
next
  case (Cons ev evs)
  from Cons.prems(1) obtain s1 where s1: "step p ev s = Inr s1" "run p evs s1 = Inr s'"
    by (auto split: sum.splits)
  from once_step [OF s1(1) assms Cons.prems(2)] have "once k c s1" .
  from Cons.IH [OF s1(2) this] show ?case .
qed

lemma flags_run:
  "run p evs s = Inr s' \<Longrightarrow>
     (hasTypedOnce s \<longrightarrow> hasTypedOnce s') \<and> (firstWordDone s \<longrightarrow> firstWordDone s')"
proof (induction evs arbitrary: s)
  case Nil
  then show ?case by simp
next
  case (Cons ev evs)
  from Cons.prems(1) obtain s1 where s1: "step p ev s = Inr s1" "run p evs s1 = Inr s'"
    by (auto split: sum.splits)
  from step_flags [OF s1(1)] Cons.IH [OF s1(2)] show ?case by blast
qed

lemma grow_ticks:
  assumes w: "words p \<noteq> []"
  shows "dir s = Fwd \<Longrightarrow>
     sub s + int n \<le> int (length (words p ! (index s mod length (words p)))) \<Longrightarrow>
     \<exists>s'. run p (replicate n Tick) s = Inr s' \<and> index s' = index s
        \<and> sub s' = sub s + int n \<and> dir s' = Fwd \<and> firstWordDone s' = firstWordDone s"
proof (induction n arbitrary: s)
  case 0
  then show ?case by simp
next
  case (Suc n)
  from step_Tick_core [OF w, of s] obtain s1 where
    s1: "step p Tick s = Inr s1" "index s1 = index s" "sub s1 = sub s + 1" "dir s1 = Fwd"
    using Suc.prems by auto
  have f: "firstWordDone s1 = firstWordDone s"
    using step_flags(2) [OF s1(1)] Suc.prems by auto
  have "sub s1 + int n \<le> int (length (words p ! (index s1 mod length (words p))))"
    using Suc.prems s1 by simp
  from Suc.IH [OF s1(4) this] s1 f show ?case by auto
qed


lemma engine_run: "words p \<noteq> [] \<Longrightarrow> engine p evs = run p evs init"
  by (simp add: engine_def mount_Inr)

lemma once_init: "once k c init"
  by (simp add: once_def init_def)

lemma first_word_done_after:
  assumes w: "words p \<noteq> []" and n: "length (words p ! 0) < n"
  shows "\<exists>s. engine p (replicate n Tick) = Inr s \<and> firstWordDone s"
proof -
  define L where "L = length (words p ! 0)"
  define m where "m = n - L - 1"
  have m: "n = L + Suc m"
    using n by (simp add: m_def L_def)
  have split: "replicate n Tick = replicate L Tick @ Tick # replicate m Tick"
    unfolding m replicate_add by simp
  from grow_ticks [OF w, of init L]
  obtain s1 where s1: "run p (replicate L Tick) init = Inr s1" "index s1 = 0"
    "sub s1 = int L" "dir s1 = Fwd"
    by (auto simp: init_def L_def)
  from step_Inr [OF w, of Tick s1] obtain s2 where s2: "step p Tick s1 = Inr s2" by blast
  have d: "firstWordDone s2"
    using step_flags(2) [OF s2] s1 by (simp add: L_def)
  from run_Inr [OF w, of "replicate m Tick" s2] obtain s3
    where s3: "run p (replicate m Tick) s2 = Inr s3" by blast
  from flags_run [OF s3] d have "firstWordDone s3" by simp
  moreover have "engine p (replicate n Tick) = Inr s3"
    unfolding engine_run [OF w] split run_append by (simp add: s1 s2 s3)
  ultimately show ?thesis by blast
qed

lemma first_keystroke_after:
  assumes w: "words p \<noteq> []" and nz: "words p ! 0 \<noteq> []" and n: "0 < n"
  shows "\<exists>s. engine p (replicate n Tick) = Inr s \<and> hasTypedOnce s"
proof -
  from n obtain m where m: "n = Suc m" by (cases n) simp_all
  from step_Tick_core [OF w, of init] nz obtain s1 where
    s1: "step p Tick init = Inr s1" "sub s1 = 1"
    by (auto simp: init_def)
  have t: "hasTypedOnce s1" using step_flags(1) [OF s1(1)] s1(2) by simp
  from run_Inr [OF w, of "replicate m Tick" s1] obtain s2
    where s2: "run p (replicate m Tick) s1 = Inr s2" by blast
  from flags_run [OF s2] t have "hasTypedOnce s2" by simp
  moreover have "engine p (replicate n Tick) = Inr s2"
    unfolding engine_run [OF w] m by (simp add: s1 s2)
  ultimately show ?thesis by blast
qed

text \<open>
  What holds of the two callbacks on the schedule of \<open>step\<close>, with a commit between any
  two timer callbacks. After any sequence of ticks and hold timeouts each
  callback has been invoked once if its flag is set and not at all otherwise, and a flag
  that is set stays set whatever follows. A transition from any state invokes
  \<open>onFirstKeystroke\<close> exactly if the flag \<open>hasTypedOnce\<close> was clear and the transition
  results in \<open>sub > 0\<close>, whatever the word and the direction. It invokes
  \<open>onFirstWordComplete\<close> exactly if it is a tick that finds the word at index 0 fully
  visible in direction \<open>Fwd\<close> with \<open>firstWordDone\<close> clear: never at an index other than
  0, never a second time. On the tick schedule \<open>onFirstWordComplete\<close> has been invoked
  exactly once after any number of ticks greater than the length of the first word, and
  \<open>onFirstKeystroke\<close> exactly once after any positive number of ticks when the first word
  is not empty.
\<close>

theorem lifecycle_callbacks_once:
  assumes w: "words p \<noteq> []"
    and k: "onFirstKeystroke p = Some k" and c: "onFirstWordComplete p = Some c"
    and kc: "k \<noteq> c"
  shows "(\<exists>s. engine p evs = Inr s
            \<and> count_list (calls s) k = (if hasTypedOnce s then 1 else 0)
            \<and> count_list (calls s) c = (if firstWordDone s then 1 else 0)
            \<and> (\<forall>more. \<exists>s'. run p more s = Inr s'
                  \<and> (hasTypedOnce s \<longrightarrow> hasTypedOnce s')
                  \<and> (firstWordDone s \<longrightarrow> firstWordDone s')))
       \<and> (\<forall>s ev. \<exists>s'. step p ev s = Inr s'
            \<and> hasTypedOnce s' = (hasTypedOnce s \<or> 0 < sub s')
            \<and> firstWordDone s' =
                 (firstWordDone s \<or>
                  (ev = Tick \<and> dir s = Fwd \<and> index s = 0
                   \<and> \<not> sub s < int (length (words p ! 0))))
            \<and> calls s' = calls s
                 @ (if ev = Tick \<and> \<not> firstWordDone s \<and> dir s = Fwd \<and> index s = 0
                       \<and> \<not> sub s < int (length (words p ! 0)) then [c] else [])
                 @ (if \<not> hasTypedOnce s \<and> 0 < sub s' then [k] else []))
       \<and> (\<forall>n > length (words p ! 0). \<exists>s. engine p (replicate n Tick) = Inr s
            \<and> count_list (calls s) c = 1)
       \<and> (words p ! 0 \<noteq> [] \<longrightarrow>
            (\<forall>n > 0. \<exists>s. engine p (replicate n Tick) = Inr s \<and> count_list (calls s) k = 1))"
proof -
  have reach: "engine p es = Inr s \<Longrightarrow> once k c s" for es s
    using once_run [OF k c kc, of es init s] once_init [of k c] by (simp add: engine_run [OF w])
  have A: "\<exists>s. engine p evs = Inr s
            \<and> count_list (calls s) k = (if hasTypedOnce s then 1 else 0)
            \<and> count_list (calls s) c = (if firstWordDone s then 1 else 0)
            \<and> (\<forall>more. \<exists>s'. run p more s = Inr s'
                  \<and> (hasTypedOnce s \<longrightarrow> hasTypedOnce s')
                  \<and> (firstWordDone s \<longrightarrow> firstWordDone s'))"
  proof -
    from run_Inr [OF w, of evs init] obtain s where s: "engine p evs = Inr s"
      by (auto simp: engine_run [OF w])
    have "\<exists>s'. run p more s = Inr s'
                  \<and> (hasTypedOnce s \<longrightarrow> hasTypedOnce s')
                  \<and> (firstWordDone s \<longrightarrow> firstWordDone s')" for more
      using run_Inr [OF w, of more s] flags_run [of p more s] by blast
    with s reach [OF s] show ?thesis by (simp add: once_def)
  qed
  have B: "\<forall>s ev. \<exists>s'. step p ev s = Inr s'
            \<and> hasTypedOnce s' = (hasTypedOnce s \<or> 0 < sub s')
            \<and> firstWordDone s' =
                 (firstWordDone s \<or>
                  (ev = Tick \<and> dir s = Fwd \<and> index s = 0
                   \<and> \<not> sub s < int (length (words p ! 0))))
            \<and> calls s' = calls s
                 @ (if ev = Tick \<and> \<not> firstWordDone s \<and> dir s = Fwd \<and> index s = 0
                       \<and> \<not> sub s < int (length (words p ! 0)) then [c] else [])
                 @ (if \<not> hasTypedOnce s \<and> 0 < sub s' then [k] else [])"
  proof (intro allI)
    fix s ev
    from step_Inr [OF w, of ev s] obtain s' where s': "step p ev s = Inr s'" by blast
    show "\<exists>s'. step p ev s = Inr s'
            \<and> hasTypedOnce s' = (hasTypedOnce s \<or> 0 < sub s')
            \<and> firstWordDone s' =
                 (firstWordDone s \<or>
                  (ev = Tick \<and> dir s = Fwd \<and> index s = 0
                   \<and> \<not> sub s < int (length (words p ! 0))))
            \<and> calls s' = calls s
                 @ (if ev = Tick \<and> \<not> firstWordDone s \<and> dir s = Fwd \<and> index s = 0
                       \<and> \<not> sub s < int (length (words p ! 0)) then [c] else [])
                 @ (if \<not> hasTypedOnce s \<and> 0 < sub s' then [k] else [])"
      by (intro exI [of _ s'] conjI s' step_flags [OF s'] step_calls [OF s' k c])
  qed
  have C: "\<forall>n > length (words p ! 0). \<exists>s. engine p (replicate n Tick) = Inr s
            \<and> count_list (calls s) c = 1"
  proof (intro allI impI)
    fix n assume "n > length (words p ! 0)"
    from first_word_done_after [OF w this] obtain s
      where s: "engine p (replicate n Tick) = Inr s" "firstWordDone s" by blast
    from reach [OF s(1)] s
    show "\<exists>s. engine p (replicate n Tick) = Inr s \<and> count_list (calls s) c = 1"
      by (auto simp: once_def)
  qed
  have D: "words p ! 0 \<noteq> [] \<longrightarrow>
            (\<forall>n > 0. \<exists>s. engine p (replicate n Tick) = Inr s \<and> count_list (calls s) k = 1)"
  proof (intro allI impI)
    fix n :: nat assume "words p ! 0 \<noteq> []" "n > 0"
    from first_keystroke_after [OF w this] obtain s
      where s: "engine p (replicate n Tick) = Inr s" "hasTypedOnce s" by blast
    from reach [OF s(1)] s
    show "\<exists>s. engine p (replicate n Tick) = Inr s \<and> count_list (calls s) k = 1"
      by (auto simp: once_def)
  qed
  show ?thesis by (intro conjI A B C D)
qed


text \<open>
  C2. With the words \<open>feed\<close> and \<open>events\<close>, from the initial state: four ticks lead to
  index 0, \<open>sub = 4\<close>, direction \<open>Fwd\<close>, showing \<open>feed\<close>; the fifth tick switches the
  direction to \<open>Back\<close> and invokes \<open>onFirstWordComplete\<close>; four more ticks lead to
  \<open>sub = 0\<close>, still \<open>Back\<close>; the tenth tick leads to index 1, \<open>sub = 0\<close>, \<open>Fwd\<close>.
\<close>

theorem full_cycle_feed_events:
  "engine (feed_events sp h k c) (replicate 4 Tick) =
     Inr \<lparr>index = 0, sub = 4, dir = Fwd, hasTypedOnce = True, firstWordDone = False,
          calls = [k]\<rparr>
   \<and> shown (feed_events sp h k c)
       \<lparr>index = 0, sub = 4, dir = Fwd, hasTypedOnce = True, firstWordDone = False,
        calls = [k]\<rparr> = ''feed''
   \<and> engine (feed_events sp h k c) (replicate 5 Tick) =
     Inr \<lparr>index = 0, sub = 4, dir = Back, hasTypedOnce = True, firstWordDone = True,
          calls = [k, c]\<rparr>
   \<and> engine (feed_events sp h k c) (replicate 9 Tick) =
     Inr \<lparr>index = 0, sub = 0, dir = Back, hasTypedOnce = True, firstWordDone = True,
          calls = [k, c]\<rparr>
   \<and> engine (feed_events sp h k c) (replicate 10 Tick) =
     Inr \<lparr>index = 1, sub = 0, dir = Fwd, hasTypedOnce = True, firstWordDone = True,
          calls = [k, c]\<rparr>"
  by (simp add: engine_eval numeral_eq_Suc)

theorem bounds_invariant_witness:
  "words (feed_events None None (0::nat) 1) \<noteq> []
   \<and> (\<exists>s. engine (feed_events None None (0::nat) 1) [Tick, Tick, HoldTimeout, Tick] = Inr s
          \<and> bounded (feed_events None None 0 1) s)"
  using bounds_invariant [of "feed_events None None (0::nat) 1" "[Tick, Tick, HoldTimeout, Tick]"]
  by simp

theorem lifecycle_callbacks_once_witness:
  "words (feed_events None None (0::nat) 1) \<noteq> []
   \<and> onFirstKeystroke (feed_events None None (0::nat) 1) = Some 0
   \<and> onFirstWordComplete (feed_events None None (0::nat) 1) = Some 1
   \<and> (0::nat) \<noteq> 1
   \<and> (\<exists>s. engine (feed_events None None (0::nat) 1) (replicate 6 Tick) = Inr s
          \<and> count_list (calls s) 1 = 1)"
  using lifecycle_callbacks_once [of "feed_events None None (0::nat) 1" 0 1 "[]"]
  by simp


lemma shrink_ticks:
  assumes w: "words p \<noteq> []"
  shows "dir s = Back \<Longrightarrow> int n \<le> sub s \<Longrightarrow>
     \<exists>s'. run p (replicate n Tick) s = Inr s' \<and> index s' = index s
        \<and> sub s' = sub s - int n \<and> dir s' = Back"
proof (induction n arbitrary: s)
  case 0
  then show ?case by simp
next
  case (Suc n)
  from step_Tick_core [OF w, of s] obtain s1 where
    s1: "step p Tick s = Inr s1" "index s1 = index s" "sub s1 = sub s - 1" "dir s1 = Back"
    using Suc.prems by auto
  have "int n \<le> sub s1" using Suc.prems s1 by simp
  from Suc.IH [OF s1(4) this] s1 show ?case by auto
qed

text \<open>One word: grow, turn, shrink, advance.\<close>

lemma word_cycle:
  assumes w: "words p \<noteq> []" and d: "dir s = Fwd" and z: "sub s = 0"
    and L: "L = length (words p ! (index s mod length (words p)))"
  shows "\<exists>s'. run p (replicate (2 * L + 2) Tick) s = Inr s' \<and> index s' = index s + 1
        \<and> sub s' = 0 \<and> dir s' = Fwd"
proof -
  have split: "replicate (2 * L + 2) Tick
       = replicate L Tick @ Tick # replicate L Tick @ [Tick]"
    by (simp add: replicate_add replicate_append_same replicate_app_Cons_same mult_2)
  from grow_ticks [OF w d, of L] z L obtain s1 where
    s1: "run p (replicate L Tick) s = Inr s1" "index s1 = index s" "sub s1 = int L" "dir s1 = Fwd"
    by auto
  from step_Tick_core [OF w, of s1] s1 L obtain s2 where
    s2: "step p Tick s1 = Inr s2" "index s2 = index s" "sub s2 = int L" "dir s2 = Back"
    by auto
  from shrink_ticks [OF w s2(4), of L] s2 obtain s3 where
    s3: "run p (replicate L Tick) s2 = Inr s3" "index s3 = index s" "sub s3 = 0" "dir s3 = Back"
    by auto
  from step_Tick_core [OF w, of s3] s3 obtain s4 where
    s4: "step p Tick s3 = Inr s4" "index s4 = index s + 1" "sub s4 = 0" "dir s4 = Fwd"
    by auto
  have "run p (replicate (2 * L + 2) Tick) s = Inr s4"
    unfolding split run_append by (simp add: s1 s2 s3 s4 run_append)
  with s4 show ?thesis by blast
qed


lemma same_view_view: "same_view p s t \<Longrightarrow> view p s = view p t"
  by (simp add: same_view_def view_def shown_def Typewriter_def current_def)

lemma same_view_step:
  assumes w: "words p \<noteq> []" and sv: "same_view p s t"
  shows "\<exists>s' t'. step p ev s = Inr s' \<and> step p ev t = Inr t' \<and> same_view p s' t'"
proof (cases ev)
  case Tick
  have e: "index s mod length (words p) = index t mod length (words p)"
    and e2: "sub s = sub t" "dir s = dir t"
    using sv by (simp_all add: same_view_def)
  have m: "(index s + 1) mod length (words p) = (index t + 1) mod length (words p)"
    using arg_cong [OF e, of "\<lambda>x. (x + 1) mod length (words p)"]
    by (simp add: mod_Suc_eq)
  have "same_view p
     (keystroke_effect p (on_interval p (words p ! (index s mod length (words p))) s))
     (keystroke_effect p (on_interval p (words p ! (index t mod length (words p))) t))"
    using m e e2
    by (auto simp: same_view_def on_interval_def opt_call_def Let_def split: option.splits)
  with Tick w show ?thesis by (simp add: step_Inr)
next
  case HoldTimeout
  have "same_view p
     (keystroke_effect p (if hold_armed (words p ! (index s mod length (words p))) s
                       then on_hold_timeout s else s))
     (keystroke_effect p (if hold_armed (words p ! (index t mod length (words p))) t
                       then on_hold_timeout t else t))"
    using sv by (auto simp: same_view_def hold_armed_def on_hold_timeout_def)
  with HoldTimeout w show ?thesis by (simp add: step_Inr)
qed

lemma same_view_run:
  assumes w: "words p \<noteq> []"
  shows "same_view p s t \<Longrightarrow>
    \<exists>s' t'. run p evs s = Inr s' \<and> run p evs t = Inr t' \<and> same_view p s' t'"
proof (induction evs arbitrary: s t)
  case Nil
  then show ?case by simp
next
  case (Cons ev evs)
  from same_view_step [OF w Cons.prems, of ev] obtain s1 t1 where
    st: "step p ev s = Inr s1" "step p ev t = Inr t1" "same_view p s1 t1" by blast
  from Cons.IH [OF st(3)] st(1,2) show ?case by simp
qed

text \<open>
  C7. With a list of two words, after the ticks that complete both words once (each grown
  to full length and shrunk to nothing, \<open>2 * length + 2\<close> ticks per word) the component
  is at \<open>index = 2\<close>, which it reads modulo 2: the active word is the first word again,
  \<open>sub\<close> is 0 and the direction \<open>Fwd\<close>, the view of the initial state. From there every
  sequence of events leads to the same view (position in the list, \<open>sub\<close>, direction and
  text) as the same sequence from the initial state: the cycle repeats identically.
\<close>

theorem two_words_wraparound:
  "(\<exists>s. engine (two_words a b sp h k c)
           (replicate (2 * length a + 2) Tick @ replicate (2 * length b + 2) Tick) = Inr s
        \<and> index s = 2 \<and> sub s = 0 \<and> dir s = Fwd
        \<and> current (two_words a b sp h k c) (index s) = Some a
        \<and> view (two_words a b sp h k c) s = view (two_words a b sp h k c) init)
   \<and> (\<forall>evs. map_sum id (view (two_words a b sp h k c))
          (engine (two_words a b sp h k c)
             (replicate (2 * length a + 2) Tick @ replicate (2 * length b + 2) Tick @ evs))
        = map_sum id (view (two_words a b sp h k c)) (engine (two_words a b sp h k c) evs))"
proof -
  let ?p = "two_words a b sp h k c"
  have w: "words ?p \<noteq> []" by simp
  from word_cycle [OF w, of init "length a"] obtain s1 where
    s1: "run ?p (replicate (2 * length a + 2) Tick) init = Inr s1" "index s1 = 1"
      "sub s1 = 0" "dir s1 = Fwd"
    by (auto simp: init_def)
  from word_cycle [OF w s1(4,3), of "length b"] s1(2) obtain s2 where
    s2: "run ?p (replicate (2 * length b + 2) Tick) s1 = Inr s2" "index s2 = 2"
      "sub s2 = 0" "dir s2 = Fwd"
    by auto
  have sv: "same_view ?p s2 init"
    using s2(2,3,4) by (simp add: same_view_def init_def numeral_2_eq_2)
  have A: "\<exists>s. engine ?p
           (replicate (2 * length a + 2) Tick @ replicate (2 * length b + 2) Tick) = Inr s
        \<and> index s = 2 \<and> sub s = 0 \<and> dir s = Fwd
        \<and> current ?p (index s) = Some a
        \<and> view ?p s = view ?p init"
  proof -
    have "engine ?p
           (replicate (2 * length a + 2) Tick @ replicate (2 * length b + 2) Tick) = Inr s2"
      by (simp only: engine_run [OF w] run_append s1(1) s2(1) sum.case)
    moreover have "current ?p (index s2) = Some a"
      by (simp add: current_def s2(2) numeral_2_eq_2)
    ultimately show ?thesis
      using s2(2,3,4) same_view_view [OF sv] by simp
  qed
  have B: "map_sum id (view ?p)
          (engine ?p
             (replicate (2 * length a + 2) Tick @ replicate (2 * length b + 2) Tick @ evs))
        = map_sum id (view ?p) (engine ?p evs)" for evs
  proof -
    from same_view_run [OF w sv, of evs] obtain s' t' where
      r: "run ?p evs s2 = Inr s'" "run ?p evs init = Inr t'" "same_view ?p s' t'" by blast
    have "engine ?p
             (replicate (2 * length a + 2) Tick @ replicate (2 * length b + 2) Tick @ evs)
          = Inr s'"
      by (simp only: engine_run [OF w] run_append s1(1) s2(1) r(1) sum.case)
    moreover have "engine ?p evs = Inr t'"
      unfolding engine_run [OF w] by (rule r(2))
    ultimately show ?thesis
      using same_view_view [OF r(3)] by simp
  qed
  show ?thesis by (intro conjI allI A B)
qed


lemma cells_opt_call [simp]: "cells (opt_call cb s) = cells s"
  by (simp add: cells_def opt_call_def split: option.splits)

lemma cells_keystroke:
  "cells s = cells t \<Longrightarrow> cells (keystroke_effect p s) = cells (keystroke_effect p' t)"
  by (simp add: keystroke_effect_def) (simp add: cells_def)

lemma cells_on_interval:
  "cells s = cells t \<Longrightarrow> cells (on_interval p cur s) = cells (on_interval p' cur t)"
  by (simp add: on_interval_def Let_def cells_def opt_call_def split: option.splits)

lemma cells_on_hold:
  "cells s = cells t \<Longrightarrow>
   cells (if hold_armed cur s then on_hold_timeout s else s)
   = cells (if hold_armed cur t then on_hold_timeout t else t)"
  by (simp add: hold_armed_def on_hold_timeout_def cells_def)

lemma cells_step:
  assumes ww: "words p' = words p" and cs: "cells s = cells t"
  shows "map_sum id cells (step p ev s) = map_sum id cells (step p' ev t)"
proof (cases "words p = []")
  case True
  then show ?thesis using ww by (simp add: step_def current_def)
next
  case False
  then have w': "words p' \<noteq> []" using ww by simp
  have i: "index s = index t" using cs by (simp add: cells_def)
  show ?thesis
  proof (cases ev)
    case Tick
    then show ?thesis
      unfolding step_Inr [OF False] step_Inr [OF w'] ww i
      by (simp add: cells_keystroke [OF cells_on_interval [OF cs]])
  next
    case HoldTimeout
    then show ?thesis
      unfolding step_Inr [OF False] step_Inr [OF w'] ww i
      using cells_keystroke [OF cells_on_hold [OF cs]] by simp
  qed
qed

lemma cells_run:
  assumes ww: "words p' = words p"
  shows "cells s = cells t \<Longrightarrow> map_sum id cells (run p evs s) = map_sum id cells (run p' evs t)"
proof (induction evs arbitrary: s t)
  case Nil
  then show ?case by simp
next
  case (Cons ev evs)
  from cells_step [OF ww Cons.prems, of ev] show ?case
  proof (cases "step p ev s"; cases "step p' ev t")
    fix s1 t1 assume st: "step p ev s = Inr s1" "step p' ev t = Inr t1"
    assume "map_sum id cells (step p ev s) = map_sum id cells (step p' ev t)"
    then have "cells s1 = cells t1" using st by simp
    from Cons.IH [OF this] st show ?thesis by simp
  qed simp_all
qed

lemma cells_shown: "words p' = words p \<Longrightarrow> cells s = cells t \<Longrightarrow> shown p' s = shown p t"
  by (simp add: cells_def shown_def Typewriter_def current_def)

text \<open>
  C10. The run of the engine does not depend on which callbacks are supplied: with any two
  choices of callbacks, present or absent, the same events lead to the same five state
  cells and the same text, or to the same error. With both callbacks absent and a
  non-empty list no event raises an error, and nothing is invoked.
\<close>

theorem callbacks_optional:
  "map_sum id (\<lambda>s. (cells s, shown p s))
      (engine (p\<lparr>onFirstKeystroke := k, onFirstWordComplete := c\<rparr>) evs)
   = map_sum id (\<lambda>s. (cells s, shown p s))
      (engine (p\<lparr>onFirstKeystroke := k', onFirstWordComplete := c'\<rparr>) evs)
   \<and> (words p \<noteq> [] \<longrightarrow>
        (\<exists>s. engine (p\<lparr>onFirstKeystroke := None, onFirstWordComplete := None\<rparr>) evs = Inr s
             \<and> calls s = []))"
proof -
  let ?p = "p\<lparr>onFirstKeystroke := k, onFirstWordComplete := c\<rparr>"
  let ?q = "p\<lparr>onFirstKeystroke := k', onFirstWordComplete := c'\<rparr>"
  have A: "map_sum id (\<lambda>s. (cells s, shown p s)) (engine ?p evs)
         = map_sum id (\<lambda>s. (cells s, shown p s)) (engine ?q evs)"
  proof (cases "words p = []")
    case True
    then show ?thesis by (simp add: engine_def mount_def Typewriter_def current_def)
  next
    case False
    have e: "map_sum id cells (run ?p evs init) = map_sum id cells (run ?q evs init)"
      by (rule cells_run) simp_all
    from False have "words ?p \<noteq> []" "words ?q \<noteq> []" by simp_all
    from run_Inr [OF this(1), of evs init] run_Inr [OF this(2), of evs init]
    obtain s t where st: "run ?p evs init = Inr s" "run ?q evs init = Inr t" by blast
    with e have ce: "cells s = cells t" by simp
    have sh: "shown p s = shown p t"
      using ce by (rule cells_shown [OF refl])
    have "engine ?p evs = Inr s" "engine ?q evs = Inr t"
      using st False by (simp_all add: engine_run)
    then show ?thesis using ce sh by simp
  qed
  have B: "words p \<noteq> [] \<longrightarrow>
        (\<exists>s. engine (p\<lparr>onFirstKeystroke := None, onFirstWordComplete := None\<rparr>) evs = Inr s
             \<and> calls s = [])"
  proof
    let ?n = "p\<lparr>onFirstKeystroke := None, onFirstWordComplete := None\<rparr>"
    assume "words p \<noteq> []"
    then have w: "words ?n \<noteq> []" by simp
    have quiet: "run ?n es s = Inr s' \<Longrightarrow> calls s' = calls s" for es s s'
    proof (induction es arbitrary: s)
      case Nil
      then show ?case by simp
    next
      case (Cons ev es)
      from Cons.prems obtain s1 where s1: "step ?n ev s = Inr s1" "run ?n es s1 = Inr s'"
        by (auto split: sum.splits)
      have "calls s1 = calls s"
        using s1(1) unfolding step_Inr [OF w]
        by (cases ev)
           (auto simp: keystroke_effect_def on_interval_def on_hold_timeout_def
              opt_call_def Let_def)
      with Cons.IH [OF s1(2)] show ?case by simp
    qed
    from run_Inr [OF w, of evs init] obtain s where s: "run ?n evs init = Inr s" by blast
    from quiet [OF s] s show "\<exists>s. engine ?n evs = Inr s \<and> calls s = []"
      by (simp add: engine_run [OF w] init_def)
  qed
  from A B show ?thesis by (rule conjI)
qed


theorem callbacks_optional_witness:
  "words (feed_events None None (0::nat) 1) \<noteq> []
   \<and> (\<exists>s. engine ((feed_events None None (0::nat) 1)
                 \<lparr>onFirstKeystroke := None, onFirstWordComplete := None\<rparr>)
               (replicate 6 Tick) = Inr s \<and> calls s = [])"
  using callbacks_optional [where p = "feed_events None None (0::nat) 1"
      and evs = "replicate 6 Tick"]
  by simp

section \<open>Callbacks on a stale closure\<close>

lemma on_interval_closure_same: "on_interval_closure p cur s s = on_interval p cur s"
  by (simp add: on_interval_closure_def on_interval_def)

lemma ticks_before_commit_one: "ticks_before_commit p 1 s = step p Tick s"
  by (simp add: ticks_before_commit_def step_def on_interval_closure_same split: option.splits)

lemmas closure_eval =
  ticks_before_commit_def on_interval_closure_def current_def Typewriter_def keystroke_effect_def
  opt_call_def Let_def CampusLanding_Typewriter_def CampusLanding_words_def

text \<open>
  C5. The claim: in every reachable state \<open>sub\<close> is at least 0 and at most the length of
  the active word, and every transition keeps it so. When two callbacks of the interval
  run before React commits, as with a delay of 0, both test the \<open>sub\<close> their render
  captured and both update the live one. From the reachable state with \<open>sub = 3\<close> of
  \<open>feed\<close>, within the bounds, the result is \<open>sub = 5\<close>; from the reachable state with
  \<open>sub = 1\<close> in direction \<open>Back\<close> it is \<open>sub = -1\<close>. Neither is within the bounds.
\<close>

theorem bounds_broken_on_stale_closure:
  "engine ((CampusLanding_Typewriter k c)\<lparr>speed := Some 0\<rparr>) (replicate 3 Tick) =
     Inr \<lparr>index = 0, sub = 3, dir = Fwd, hasTypedOnce = True, firstWordDone = False,
        calls = [k]\<rparr>
   \<and> bounded ((CampusLanding_Typewriter k c)\<lparr>speed := Some 0\<rparr>)
       \<lparr>index = 0, sub = 3, dir = Fwd, hasTypedOnce = True, firstWordDone = False,
        calls = [k]\<rparr>
   \<and> ticks_before_commit ((CampusLanding_Typewriter k c)\<lparr>speed := Some 0\<rparr>) 2
       \<lparr>index = 0, sub = 3, dir = Fwd, hasTypedOnce = True, firstWordDone = False,
        calls = [k]\<rparr> =
     Inr \<lparr>index = 0, sub = 5, dir = Fwd, hasTypedOnce = True, firstWordDone = False,
        calls = [k]\<rparr>
   \<and> \<not> bounded ((CampusLanding_Typewriter k c)\<lparr>speed := Some 0\<rparr>)
       \<lparr>index = 0, sub = 5, dir = Fwd, hasTypedOnce = True, firstWordDone = False,
        calls = [k]\<rparr>
   \<and> engine ((CampusLanding_Typewriter k c)\<lparr>speed := Some 0\<rparr>) (replicate 8 Tick) =
     Inr \<lparr>index = 0, sub = 1, dir = Back, hasTypedOnce = True, firstWordDone = True,
        calls = [k, c]\<rparr>
   \<and> bounded ((CampusLanding_Typewriter k c)\<lparr>speed := Some 0\<rparr>)
       \<lparr>index = 0, sub = 1, dir = Back, hasTypedOnce = True, firstWordDone = True,
        calls = [k, c]\<rparr>
   \<and> ticks_before_commit ((CampusLanding_Typewriter k c)\<lparr>speed := Some 0\<rparr>) 2
       \<lparr>index = 0, sub = 1, dir = Back, hasTypedOnce = True, firstWordDone = True,
        calls = [k, c]\<rparr> =
     Inr \<lparr>index = 0, sub = - 1, dir = Back, hasTypedOnce = True, firstWordDone = True,
        calls = [k, c]\<rparr>
   \<and> \<not> bounded ((CampusLanding_Typewriter k c)\<lparr>speed := Some 0\<rparr>)
       \<lparr>index = 0, sub = - 1, dir = Back, hasTypedOnce = True, firstWordDone = True,
        calls = [k, c]\<rparr>"
proof -
  have r3: "replicate 3 Tick = [Tick, Tick, Tick]"
    and r8: "replicate 8 Tick = [Tick, Tick, Tick, Tick, Tick, Tick, Tick, Tick]"
    by (simp_all add: numeral_eq_Suc)
  have a: "engine ((CampusLanding_Typewriter k c)\<lparr>speed := Some 0\<rparr>) (replicate 3 Tick) =
     Inr \<lparr>index = 0, sub = 3, dir = Fwd, hasTypedOnce = True, firstWordDone = False,
        calls = [k]\<rparr>"
    by (simp add: engine_eval CampusLanding_Typewriter_def CampusLanding_words_def r3)
  have b: "bounded ((CampusLanding_Typewriter k c)\<lparr>speed := Some 0\<rparr>)
       \<lparr>index = 0, sub = 3, dir = Fwd, hasTypedOnce = True, firstWordDone = False,
        calls = [k]\<rparr>"
    by (simp add: bounded_def current_def CampusLanding_Typewriter_def CampusLanding_words_def)
  have c: "ticks_before_commit ((CampusLanding_Typewriter k c)\<lparr>speed := Some 0\<rparr>) 2
       \<lparr>index = 0, sub = 3, dir = Fwd, hasTypedOnce = True, firstWordDone = False,
        calls = [k]\<rparr> =
     Inr \<lparr>index = 0, sub = 5, dir = Fwd, hasTypedOnce = True, firstWordDone = False,
        calls = [k]\<rparr>"
    by (simp add: closure_eval numeral_2_eq_2)
  have d: "\<not> bounded ((CampusLanding_Typewriter k c)\<lparr>speed := Some 0\<rparr>)
       \<lparr>index = 0, sub = 5, dir = Fwd, hasTypedOnce = True, firstWordDone = False,
        calls = [k]\<rparr>"
    by (simp add: bounded_def current_def CampusLanding_Typewriter_def CampusLanding_words_def)
  have e: "engine ((CampusLanding_Typewriter k c)\<lparr>speed := Some 0\<rparr>) (replicate 8 Tick) =
     Inr \<lparr>index = 0, sub = 1, dir = Back, hasTypedOnce = True, firstWordDone = True,
        calls = [k, c]\<rparr>"
    by (simp add: engine_eval CampusLanding_Typewriter_def CampusLanding_words_def r8)
  have f: "bounded ((CampusLanding_Typewriter k c)\<lparr>speed := Some 0\<rparr>)
       \<lparr>index = 0, sub = 1, dir = Back, hasTypedOnce = True, firstWordDone = True,
        calls = [k, c]\<rparr>"
    by (simp add: bounded_def current_def CampusLanding_Typewriter_def CampusLanding_words_def)
  have g: "ticks_before_commit ((CampusLanding_Typewriter k c)\<lparr>speed := Some 0\<rparr>) 2
       \<lparr>index = 0, sub = 1, dir = Back, hasTypedOnce = True, firstWordDone = True,
        calls = [k, c]\<rparr> =
     Inr \<lparr>index = 0, sub = - 1, dir = Back, hasTypedOnce = True, firstWordDone = True,
        calls = [k, c]\<rparr>"
    by (simp add: closure_eval numeral_2_eq_2)
  have h: "\<not> bounded ((CampusLanding_Typewriter k c)\<lparr>speed := Some 0\<rparr>)
       \<lparr>index = 0, sub = - 1, dir = Back, hasTypedOnce = True, firstWordDone = True,
        calls = [k, c]\<rparr>"
    by (simp add: bounded_def current_def CampusLanding_Typewriter_def CampusLanding_words_def)
  show ?thesis by (intro conjI a b c d e f g h)
qed

text \<open>On the same schedule two callbacks that find the first word fully visible both invoke
  \<open>onFirstWordComplete\<close>.\<close>

lemma onFirstWordComplete_twice_on_stale_closure:
  "ticks_before_commit ((CampusLanding_Typewriter k c)\<lparr>speed := Some 0\<rparr>) 2
       \<lparr>index = 0, sub = 4, dir = Fwd, hasTypedOnce = True, firstWordDone = False,
        calls = [k]\<rparr> =
     Inr \<lparr>index = 0, sub = 4, dir = Back, hasTypedOnce = True, firstWordDone = True,
        calls = [k, c, c]\<rparr>"
  by (simp add: closure_eval numeral_2_eq_2)

section \<open>The engine on the clock\<close>

lemma Typewriter_eval:
  "words p \<noteq> [] \<Longrightarrow>
   Typewriter p s =
     Inr \<lparr>hold_deps = (dir s, sub s, int (length (words p ! (index s mod length (words p)))),
                      hold_of p),
          delay = interval_delay p (dir s),
          text_shown = js_slice (words p ! (index s mod length (words p))) 0 (sub s)\<rparr>"
  by (simp add: Typewriter_def current_def)

lemma timed_step_eval:
  assumes w: "words p \<noteq> []"
    and ne: "next_event \<lparr>state = s, clock = cl, interval_due = iv, timeout_due = tmo\<rparr> = (ev, due)"
    and st: "step p ev s = Inr s'"
  shows "timed_step p \<lparr>state = s, clock = cl, interval_due = iv, timeout_due = tmo\<rparr> =
     Inr \<lparr>state = s', clock = due,
          interval_due =
            (if interval_delay p (dir s') \<noteq> interval_delay p (dir s)
             then due + interval_delay p (dir s')
             else if ev = Tick then iv + interval_delay p (dir s)
             else iv),
          timeout_due =
            (if (dir s', sub s', int (length (words p ! (index s' mod length (words p)))))
                \<noteq> (dir s, sub s, int (length (words p ! (index s mod length (words p)))))
             then (if dir s' = Fwd
                      \<and> sub s' = int (length (words p ! (index s' mod length (words p))))
                   then Some (due + hold_of p) else None)
             else if ev = HoldTimeout then None
             else tmo)\<rparr>"
  unfolding timed_step_def ne
  by (simp add: Typewriter_eval [OF w] st hold_effect_def)

lemma mount_timed_eval:
  assumes w: "words p \<noteq> []"
  shows "mount_timed p =
     Inr \<lparr>state = init, clock = 0, interval_due = interval_delay p Fwd,
          timeout_due = (if words p ! 0 = [] then Some (hold_of p) else None)\<rparr>"
  by (simp add: mount_timed_def mount_Inr [OF w] Typewriter_eval [OF w] hold_effect_def init_def)

section \<open>The page's Typewriter, timer by timer\<close>

lemmas landing_eval =
  CampusLanding_Typewriter_def CampusLanding_words_def interval_delay_def speed_of_def hold_of_def

lemma landing_words: "words (CampusLanding_Typewriter k c) \<noteq> []"
  by (simp add: CampusLanding_Typewriter_def CampusLanding_words_def)

lemma landing_mount:
  "mount_timed (CampusLanding_Typewriter k c) =
     Inr \<lparr>state =
       \<lparr>index = 0, sub = 0, dir = Fwd, hasTypedOnce = False, firstWordDone = False,
        calls = []\<rparr>,
      clock = 0, interval_due = 300, timeout_due = None\<rparr>"
  using mount_timed_eval [OF landing_words]
  by (simp add: landing_eval init_def)

lemma landing_step1:
  "step (CampusLanding_Typewriter k c) Tick
      \<lparr>index = 0, sub = 0, dir = Fwd, hasTypedOnce = False, firstWordDone = False,
        calls = []\<rparr> =
     Inr \<lparr>index = 0, sub = 1, dir = Fwd, hasTypedOnce = True, firstWordDone = False,
        calls = [k]\<rparr>"
  by (simp add: engine_eval CampusLanding_Typewriter_def CampusLanding_words_def)

lemma landing_timed1:
  "timed_step (CampusLanding_Typewriter k c)
     \<lparr>state =
       \<lparr>index = 0, sub = 0, dir = Fwd, hasTypedOnce = False, firstWordDone = False,
        calls = []\<rparr>,
      clock = 0, interval_due = 300, timeout_due = None\<rparr> =
     Inr \<lparr>state =
       \<lparr>index = 0, sub = 1, dir = Fwd, hasTypedOnce = True, firstWordDone = False,
        calls = [k]\<rparr>,
      clock = 300, interval_due = 600, timeout_due = None\<rparr>"
  using timed_step_eval [where due = 300 and cl = 0 and iv = 300 and tmo = "None",
      OF landing_words _ landing_step1]
  by (simp add: next_event_def landing_eval)

lemma landing_step2:
  "step (CampusLanding_Typewriter k c) Tick
      \<lparr>index = 0, sub = 1, dir = Fwd, hasTypedOnce = True, firstWordDone = False,
        calls = [k]\<rparr> =
     Inr \<lparr>index = 0, sub = 2, dir = Fwd, hasTypedOnce = True, firstWordDone = False,
        calls = [k]\<rparr>"
  by (simp add: engine_eval CampusLanding_Typewriter_def CampusLanding_words_def)

lemma landing_timed2:
  "timed_step (CampusLanding_Typewriter k c)
     \<lparr>state =
       \<lparr>index = 0, sub = 1, dir = Fwd, hasTypedOnce = True, firstWordDone = False,
        calls = [k]\<rparr>,
      clock = 300, interval_due = 600, timeout_due = None\<rparr> =
     Inr \<lparr>state =
       \<lparr>index = 0, sub = 2, dir = Fwd, hasTypedOnce = True, firstWordDone = False,
        calls = [k]\<rparr>,
      clock = 600, interval_due = 900, timeout_due = None\<rparr>"
  using timed_step_eval [where due = 600 and cl = 300 and iv = 600 and tmo = "None",
      OF landing_words _ landing_step2]
  by (simp add: next_event_def landing_eval)

lemma landing_step3:
  "step (CampusLanding_Typewriter k c) Tick
      \<lparr>index = 0, sub = 2, dir = Fwd, hasTypedOnce = True, firstWordDone = False,
        calls = [k]\<rparr> =
     Inr \<lparr>index = 0, sub = 3, dir = Fwd, hasTypedOnce = True, firstWordDone = False,
        calls = [k]\<rparr>"
  by (simp add: engine_eval CampusLanding_Typewriter_def CampusLanding_words_def)

lemma landing_timed3:
  "timed_step (CampusLanding_Typewriter k c)
     \<lparr>state =
       \<lparr>index = 0, sub = 2, dir = Fwd, hasTypedOnce = True, firstWordDone = False,
        calls = [k]\<rparr>,
      clock = 600, interval_due = 900, timeout_due = None\<rparr> =
     Inr \<lparr>state =
       \<lparr>index = 0, sub = 3, dir = Fwd, hasTypedOnce = True, firstWordDone = False,
        calls = [k]\<rparr>,
      clock = 900, interval_due = 1200, timeout_due = None\<rparr>"
  using timed_step_eval [where due = 900 and cl = 600 and iv = 900 and tmo = "None",
      OF landing_words _ landing_step3]
  by (simp add: next_event_def landing_eval)

lemma landing_step4:
  "step (CampusLanding_Typewriter k c) Tick
      \<lparr>index = 0, sub = 3, dir = Fwd, hasTypedOnce = True, firstWordDone = False,
        calls = [k]\<rparr> =
     Inr \<lparr>index = 0, sub = 4, dir = Fwd, hasTypedOnce = True, firstWordDone = False,
        calls = [k]\<rparr>"
  by (simp add: engine_eval CampusLanding_Typewriter_def CampusLanding_words_def)

lemma landing_timed4:
  "timed_step (CampusLanding_Typewriter k c)
     \<lparr>state =
       \<lparr>index = 0, sub = 3, dir = Fwd, hasTypedOnce = True, firstWordDone = False,
        calls = [k]\<rparr>,
      clock = 900, interval_due = 1200, timeout_due = None\<rparr> =
     Inr \<lparr>state =
       \<lparr>index = 0, sub = 4, dir = Fwd, hasTypedOnce = True, firstWordDone = False,
        calls = [k]\<rparr>,
      clock = 1200, interval_due = 1500, timeout_due = Some 3200\<rparr>"
  using timed_step_eval [where due = 1200 and cl = 900 and iv = 1200 and tmo = "None",
      OF landing_words _ landing_step4]
  by (simp add: next_event_def landing_eval)

lemma landing_step5:
  "step (CampusLanding_Typewriter k c) Tick
      \<lparr>index = 0, sub = 4, dir = Fwd, hasTypedOnce = True, firstWordDone = False,
        calls = [k]\<rparr> =
     Inr \<lparr>index = 0, sub = 4, dir = Back, hasTypedOnce = True, firstWordDone = True,
        calls = [k, c]\<rparr>"
  by (simp add: engine_eval CampusLanding_Typewriter_def CampusLanding_words_def)

lemma landing_timed5:
  "timed_step (CampusLanding_Typewriter k c)
     \<lparr>state =
       \<lparr>index = 0, sub = 4, dir = Fwd, hasTypedOnce = True, firstWordDone = False,
        calls = [k]\<rparr>,
      clock = 1200, interval_due = 1500, timeout_due = Some 3200\<rparr> =
     Inr \<lparr>state =
       \<lparr>index = 0, sub = 4, dir = Back, hasTypedOnce = True, firstWordDone = True,
        calls = [k, c]\<rparr>,
      clock = 1500, interval_due = 1650, timeout_due = None\<rparr>"
  using timed_step_eval [where due = 1500 and cl = 1200 and iv = 1500 and tmo = "Some 3200",
      OF landing_words _ landing_step5]
  by (simp add: next_event_def landing_eval)

lemma landing_step6:
  "step (CampusLanding_Typewriter k c) Tick
      \<lparr>index = 0, sub = 4, dir = Back, hasTypedOnce = True, firstWordDone = True,
        calls = [k, c]\<rparr> =
     Inr \<lparr>index = 0, sub = 3, dir = Back, hasTypedOnce = True, firstWordDone = True,
        calls = [k, c]\<rparr>"
  by (simp add: engine_eval CampusLanding_Typewriter_def CampusLanding_words_def)

lemma landing_timed6:
  "timed_step (CampusLanding_Typewriter k c)
     \<lparr>state =
       \<lparr>index = 0, sub = 4, dir = Back, hasTypedOnce = True, firstWordDone = True,
        calls = [k, c]\<rparr>,
      clock = 1500, interval_due = 1650, timeout_due = None\<rparr> =
     Inr \<lparr>state =
       \<lparr>index = 0, sub = 3, dir = Back, hasTypedOnce = True, firstWordDone = True,
        calls = [k, c]\<rparr>,
      clock = 1650, interval_due = 1800, timeout_due = None\<rparr>"
  using timed_step_eval [where due = 1650 and cl = 1500 and iv = 1650 and tmo = "None",
      OF landing_words _ landing_step6]
  by (simp add: next_event_def landing_eval)

lemma landing_step7:
  "step (CampusLanding_Typewriter k c) Tick
      \<lparr>index = 0, sub = 3, dir = Back, hasTypedOnce = True, firstWordDone = True,
        calls = [k, c]\<rparr> =
     Inr \<lparr>index = 0, sub = 2, dir = Back, hasTypedOnce = True, firstWordDone = True,
        calls = [k, c]\<rparr>"
  by (simp add: engine_eval CampusLanding_Typewriter_def CampusLanding_words_def)

lemma landing_timed7:
  "timed_step (CampusLanding_Typewriter k c)
     \<lparr>state =
       \<lparr>index = 0, sub = 3, dir = Back, hasTypedOnce = True, firstWordDone = True,
        calls = [k, c]\<rparr>,
      clock = 1650, interval_due = 1800, timeout_due = None\<rparr> =
     Inr \<lparr>state =
       \<lparr>index = 0, sub = 2, dir = Back, hasTypedOnce = True, firstWordDone = True,
        calls = [k, c]\<rparr>,
      clock = 1800, interval_due = 1950, timeout_due = None\<rparr>"
  using timed_step_eval [where due = 1800 and cl = 1650 and iv = 1800 and tmo = "None",
      OF landing_words _ landing_step7]
  by (simp add: next_event_def landing_eval)

lemma short_hold_words: "words ((CampusLanding_Typewriter k c)\<lparr>hold := Some 100\<rparr>) \<noteq> []"
  by (simp add: CampusLanding_Typewriter_def CampusLanding_words_def)

lemma short_hold_mount:
  "mount_timed ((CampusLanding_Typewriter k c)\<lparr>hold := Some 100\<rparr>) =
     Inr \<lparr>state =
       \<lparr>index = 0, sub = 0, dir = Fwd, hasTypedOnce = False, firstWordDone = False,
        calls = []\<rparr>,
      clock = 0, interval_due = 300, timeout_due = None\<rparr>"
  using mount_timed_eval [OF short_hold_words]
  by (simp add: landing_eval init_def)

lemma short_hold_step1:
  "step ((CampusLanding_Typewriter k c)\<lparr>hold := Some 100\<rparr>) Tick
      \<lparr>index = 0, sub = 0, dir = Fwd, hasTypedOnce = False, firstWordDone = False,
        calls = []\<rparr> =
     Inr \<lparr>index = 0, sub = 1, dir = Fwd, hasTypedOnce = True, firstWordDone = False,
        calls = [k]\<rparr>"
  by (simp add: engine_eval CampusLanding_Typewriter_def CampusLanding_words_def)

lemma short_hold_timed1:
  "timed_step ((CampusLanding_Typewriter k c)\<lparr>hold := Some 100\<rparr>)
     \<lparr>state =
       \<lparr>index = 0, sub = 0, dir = Fwd, hasTypedOnce = False, firstWordDone = False,
        calls = []\<rparr>,
      clock = 0, interval_due = 300, timeout_due = None\<rparr> =
     Inr \<lparr>state =
       \<lparr>index = 0, sub = 1, dir = Fwd, hasTypedOnce = True, firstWordDone = False,
        calls = [k]\<rparr>,
      clock = 300, interval_due = 600, timeout_due = None\<rparr>"
  using timed_step_eval [where due = 300 and cl = 0 and iv = 300 and tmo = "None",
      OF short_hold_words _ short_hold_step1]
  by (simp add: next_event_def landing_eval)

lemma short_hold_step2:
  "step ((CampusLanding_Typewriter k c)\<lparr>hold := Some 100\<rparr>) Tick
      \<lparr>index = 0, sub = 1, dir = Fwd, hasTypedOnce = True, firstWordDone = False,
        calls = [k]\<rparr> =
     Inr \<lparr>index = 0, sub = 2, dir = Fwd, hasTypedOnce = True, firstWordDone = False,
        calls = [k]\<rparr>"
  by (simp add: engine_eval CampusLanding_Typewriter_def CampusLanding_words_def)

lemma short_hold_timed2:
  "timed_step ((CampusLanding_Typewriter k c)\<lparr>hold := Some 100\<rparr>)
     \<lparr>state =
       \<lparr>index = 0, sub = 1, dir = Fwd, hasTypedOnce = True, firstWordDone = False,
        calls = [k]\<rparr>,
      clock = 300, interval_due = 600, timeout_due = None\<rparr> =
     Inr \<lparr>state =
       \<lparr>index = 0, sub = 2, dir = Fwd, hasTypedOnce = True, firstWordDone = False,
        calls = [k]\<rparr>,
      clock = 600, interval_due = 900, timeout_due = None\<rparr>"
  using timed_step_eval [where due = 600 and cl = 300 and iv = 600 and tmo = "None",
      OF short_hold_words _ short_hold_step2]
  by (simp add: next_event_def landing_eval)

lemma short_hold_step3:
  "step ((CampusLanding_Typewriter k c)\<lparr>hold := Some 100\<rparr>) Tick
      \<lparr>index = 0, sub = 2, dir = Fwd, hasTypedOnce = True, firstWordDone = False,
        calls = [k]\<rparr> =
     Inr \<lparr>index = 0, sub = 3, dir = Fwd, hasTypedOnce = True, firstWordDone = False,
        calls = [k]\<rparr>"
  by (simp add: engine_eval CampusLanding_Typewriter_def CampusLanding_words_def)

lemma short_hold_timed3:
  "timed_step ((CampusLanding_Typewriter k c)\<lparr>hold := Some 100\<rparr>)
     \<lparr>state =
       \<lparr>index = 0, sub = 2, dir = Fwd, hasTypedOnce = True, firstWordDone = False,
        calls = [k]\<rparr>,
      clock = 600, interval_due = 900, timeout_due = None\<rparr> =
     Inr \<lparr>state =
       \<lparr>index = 0, sub = 3, dir = Fwd, hasTypedOnce = True, firstWordDone = False,
        calls = [k]\<rparr>,
      clock = 900, interval_due = 1200, timeout_due = None\<rparr>"
  using timed_step_eval [where due = 900 and cl = 600 and iv = 900 and tmo = "None",
      OF short_hold_words _ short_hold_step3]
  by (simp add: next_event_def landing_eval)

lemma short_hold_step4:
  "step ((CampusLanding_Typewriter k c)\<lparr>hold := Some 100\<rparr>) Tick
      \<lparr>index = 0, sub = 3, dir = Fwd, hasTypedOnce = True, firstWordDone = False,
        calls = [k]\<rparr> =
     Inr \<lparr>index = 0, sub = 4, dir = Fwd, hasTypedOnce = True, firstWordDone = False,
        calls = [k]\<rparr>"
  by (simp add: engine_eval CampusLanding_Typewriter_def CampusLanding_words_def)

lemma short_hold_timed4:
  "timed_step ((CampusLanding_Typewriter k c)\<lparr>hold := Some 100\<rparr>)
     \<lparr>state =
       \<lparr>index = 0, sub = 3, dir = Fwd, hasTypedOnce = True, firstWordDone = False,
        calls = [k]\<rparr>,
      clock = 900, interval_due = 1200, timeout_due = None\<rparr> =
     Inr \<lparr>state =
       \<lparr>index = 0, sub = 4, dir = Fwd, hasTypedOnce = True, firstWordDone = False,
        calls = [k]\<rparr>,
      clock = 1200, interval_due = 1500, timeout_due = Some 1300\<rparr>"
  using timed_step_eval [where due = 1200 and cl = 900 and iv = 1200 and tmo = "None",
      OF short_hold_words _ short_hold_step4]
  by (simp add: next_event_def landing_eval)

lemma short_hold_step5:
  "step ((CampusLanding_Typewriter k c)\<lparr>hold := Some 100\<rparr>) HoldTimeout
      \<lparr>index = 0, sub = 4, dir = Fwd, hasTypedOnce = True, firstWordDone = False,
        calls = [k]\<rparr> =
     Inr \<lparr>index = 0, sub = 4, dir = Back, hasTypedOnce = True, firstWordDone = False,
        calls = [k]\<rparr>"
  by (simp add: engine_eval CampusLanding_Typewriter_def CampusLanding_words_def)

lemma short_hold_timed5:
  "timed_step ((CampusLanding_Typewriter k c)\<lparr>hold := Some 100\<rparr>)
     \<lparr>state =
       \<lparr>index = 0, sub = 4, dir = Fwd, hasTypedOnce = True, firstWordDone = False,
        calls = [k]\<rparr>,
      clock = 1200, interval_due = 1500, timeout_due = Some 1300\<rparr> =
     Inr \<lparr>state =
       \<lparr>index = 0, sub = 4, dir = Back, hasTypedOnce = True, firstWordDone = False,
        calls = [k]\<rparr>,
      clock = 1300, interval_due = 1450, timeout_due = None\<rparr>"
  using timed_step_eval [where due = 1300 and cl = 1200 and iv = 1500 and tmo = "Some 1300",
      OF short_hold_words _ short_hold_step5]
  by (simp add: next_event_def landing_eval)

lemma short_hold_step6:
  "step ((CampusLanding_Typewriter k c)\<lparr>hold := Some 100\<rparr>) Tick
      \<lparr>index = 0, sub = 4, dir = Back, hasTypedOnce = True, firstWordDone = False,
        calls = [k]\<rparr> =
     Inr \<lparr>index = 0, sub = 3, dir = Back, hasTypedOnce = True, firstWordDone = False,
        calls = [k]\<rparr>"
  by (simp add: engine_eval CampusLanding_Typewriter_def CampusLanding_words_def)

lemma short_hold_timed6:
  "timed_step ((CampusLanding_Typewriter k c)\<lparr>hold := Some 100\<rparr>)
     \<lparr>state =
       \<lparr>index = 0, sub = 4, dir = Back, hasTypedOnce = True, firstWordDone = False,
        calls = [k]\<rparr>,
      clock = 1300, interval_due = 1450, timeout_due = None\<rparr> =
     Inr \<lparr>state =
       \<lparr>index = 0, sub = 3, dir = Back, hasTypedOnce = True, firstWordDone = False,
        calls = [k]\<rparr>,
      clock = 1450, interval_due = 1600, timeout_due = None\<rparr>"
  using timed_step_eval [where due = 1450 and cl = 1300 and iv = 1450 and tmo = "None",
      OF short_hold_words _ short_hold_step6]
  by (simp add: next_event_def landing_eval)

lemma short_hold_step7:
  "step ((CampusLanding_Typewriter k c)\<lparr>hold := Some 100\<rparr>) Tick
      \<lparr>index = 0, sub = 3, dir = Back, hasTypedOnce = True, firstWordDone = False,
        calls = [k]\<rparr> =
     Inr \<lparr>index = 0, sub = 2, dir = Back, hasTypedOnce = True, firstWordDone = False,
        calls = [k]\<rparr>"
  by (simp add: engine_eval CampusLanding_Typewriter_def CampusLanding_words_def)

lemma short_hold_timed7:
  "timed_step ((CampusLanding_Typewriter k c)\<lparr>hold := Some 100\<rparr>)
     \<lparr>state =
       \<lparr>index = 0, sub = 3, dir = Back, hasTypedOnce = True, firstWordDone = False,
        calls = [k]\<rparr>,
      clock = 1450, interval_due = 1600, timeout_due = None\<rparr> =
     Inr \<lparr>state =
       \<lparr>index = 0, sub = 2, dir = Back, hasTypedOnce = True, firstWordDone = False,
        calls = [k]\<rparr>,
      clock = 1600, interval_due = 1750, timeout_due = None\<rparr>"
  using timed_step_eval [where due = 1600 and cl = 1450 and iv = 1600 and tmo = "None",
      OF short_hold_words _ short_hold_step7]
  by (simp add: next_event_def landing_eval)

lemma short_hold_step8:
  "step ((CampusLanding_Typewriter k c)\<lparr>hold := Some 100\<rparr>) Tick
      \<lparr>index = 0, sub = 2, dir = Back, hasTypedOnce = True, firstWordDone = False,
        calls = [k]\<rparr> =
     Inr \<lparr>index = 0, sub = 1, dir = Back, hasTypedOnce = True, firstWordDone = False,
        calls = [k]\<rparr>"
  by (simp add: engine_eval CampusLanding_Typewriter_def CampusLanding_words_def)

lemma short_hold_timed8:
  "timed_step ((CampusLanding_Typewriter k c)\<lparr>hold := Some 100\<rparr>)
     \<lparr>state =
       \<lparr>index = 0, sub = 2, dir = Back, hasTypedOnce = True, firstWordDone = False,
        calls = [k]\<rparr>,
      clock = 1600, interval_due = 1750, timeout_due = None\<rparr> =
     Inr \<lparr>state =
       \<lparr>index = 0, sub = 1, dir = Back, hasTypedOnce = True, firstWordDone = False,
        calls = [k]\<rparr>,
      clock = 1750, interval_due = 1900, timeout_due = None\<rparr>"
  using timed_step_eval [where due = 1750 and cl = 1600 and iv = 1750 and tmo = "None",
      OF short_hold_words _ short_hold_step8]
  by (simp add: next_event_def landing_eval)

lemma short_hold_step9:
  "step ((CampusLanding_Typewriter k c)\<lparr>hold := Some 100\<rparr>) Tick
      \<lparr>index = 0, sub = 1, dir = Back, hasTypedOnce = True, firstWordDone = False,
        calls = [k]\<rparr> =
     Inr \<lparr>index = 0, sub = 0, dir = Back, hasTypedOnce = True, firstWordDone = False,
        calls = [k]\<rparr>"
  by (simp add: engine_eval CampusLanding_Typewriter_def CampusLanding_words_def)

lemma short_hold_timed9:
  "timed_step ((CampusLanding_Typewriter k c)\<lparr>hold := Some 100\<rparr>)
     \<lparr>state =
       \<lparr>index = 0, sub = 1, dir = Back, hasTypedOnce = True, firstWordDone = False,
        calls = [k]\<rparr>,
      clock = 1750, interval_due = 1900, timeout_due = None\<rparr> =
     Inr \<lparr>state =
       \<lparr>index = 0, sub = 0, dir = Back, hasTypedOnce = True, firstWordDone = False,
        calls = [k]\<rparr>,
      clock = 1900, interval_due = 2050, timeout_due = None\<rparr>"
  using timed_step_eval [where due = 1900 and cl = 1750 and iv = 1900 and tmo = "None",
      OF short_hold_words _ short_hold_step9]
  by (simp add: next_event_def landing_eval)

lemma short_hold_step10:
  "step ((CampusLanding_Typewriter k c)\<lparr>hold := Some 100\<rparr>) Tick
      \<lparr>index = 0, sub = 0, dir = Back, hasTypedOnce = True, firstWordDone = False,
        calls = [k]\<rparr> =
     Inr \<lparr>index = 1, sub = 0, dir = Fwd, hasTypedOnce = True, firstWordDone = False,
        calls = [k]\<rparr>"
  by (simp add: engine_eval CampusLanding_Typewriter_def CampusLanding_words_def)

lemma short_hold_timed10:
  "timed_step ((CampusLanding_Typewriter k c)\<lparr>hold := Some 100\<rparr>)
     \<lparr>state =
       \<lparr>index = 0, sub = 0, dir = Back, hasTypedOnce = True, firstWordDone = False,
        calls = [k]\<rparr>,
      clock = 1900, interval_due = 2050, timeout_due = None\<rparr> =
     Inr \<lparr>state =
       \<lparr>index = 1, sub = 0, dir = Fwd, hasTypedOnce = True, firstWordDone = False,
        calls = [k]\<rparr>,
      clock = 2050, interval_due = 2350, timeout_due = None\<rparr>"
  using timed_step_eval [where due = 2050 and cl = 1900 and iv = 2050 and tmo = "None",
      OF short_hold_words _ short_hold_step10]
  by (simp add: next_event_def landing_eval)

text \<open>
  C3. The claim: whenever the direction is \<open>Fwd\<close> and the word is fully visible, the word
  stays for \<open>hold\<close> milliseconds and the hold timeout switches the direction. On the page
  (speed 300, hold 2000) the word \<open>feed\<close> is fully visible at 1200 ms, the hold timeout is
  set for 3200 ms, the next timer to run is the interval at 1500 ms, and its tick switches
  the direction to \<open>Back\<close>: the word has been held for 300 ms, and the timeout is cleared
  without having run.
\<close>

theorem hold_cut_short_by_tick:
  "timed_engine (CampusLanding_Typewriter k c) 4 =
     Inr \<lparr>state =
       \<lparr>index = 0, sub = 4, dir = Fwd, hasTypedOnce = True, firstWordDone = False,
        calls = [k]\<rparr>,
      clock = 1200, interval_due = 1500, timeout_due = Some 3200\<rparr>
   \<and> next_event
     \<lparr>state =
       \<lparr>index = 0, sub = 4, dir = Fwd, hasTypedOnce = True, firstWordDone = False,
        calls = [k]\<rparr>,
      clock = 1200, interval_due = 1500, timeout_due = Some 3200\<rparr> = (Tick, 1500)
   \<and> timed_engine (CampusLanding_Typewriter k c) 5 =
     Inr \<lparr>state =
       \<lparr>index = 0, sub = 4, dir = Back, hasTypedOnce = True, firstWordDone = True,
        calls = [k, c]\<rparr>,
      clock = 1500, interval_due = 1650, timeout_due = None\<rparr>"
  by (simp add: timed_engine_def landing_mount landing_timed1 landing_timed2 landing_timed3
        landing_timed4 landing_timed5 numeral_eq_Suc next_event_def)

lemma callbacks_frozen_step:
  assumes st: "step p ev s = Inr s'" and h: "hasTypedOnce s" and i: "0 < index s \<or> dir s = Back"
  shows "calls s' = calls s \<and> firstWordDone s' = firstWordDone s
         \<and> hasTypedOnce s' \<and> (0 < index s' \<or> dir s' = Back)"
proof -
  have w: "words p \<noteq> []" using st by (rule step_words)
  show ?thesis
    using st h i unfolding step_Inr [OF w]
    by (cases ev)
       (auto simp: keystroke_effect_def on_interval_def on_hold_timeout_def opt_call_def Let_def
             split: if_splits)
qed

lemma timed_step_is_step:
  assumes "timed_step p t = Inr t'"
  shows "\<exists>ev. step p ev (state t) = Inr (state t')"
proof -
  obtain ev due where ne: "next_event t = (ev, due)" by (cases "next_event t")
  from assms have "step p ev (state t) = Inr (state t')"
    unfolding timed_step_def ne by (auto split: sum.splits)
  then show ?thesis ..
qed

lemma callbacks_frozen_timed:
  "timed_run p n t = Inr t' \<Longrightarrow> hasTypedOnce (state t) \<Longrightarrow>
   0 < index (state t) \<or> dir (state t) = Back \<Longrightarrow>
   calls (state t') = calls (state t) \<and> firstWordDone (state t') = firstWordDone (state t)"
proof (induction n arbitrary: t)
  case 0
  then show ?case by simp
next
  case (Suc n)
  from Suc.prems(1) obtain t1 where t1: "timed_step p t = Inr t1" "timed_run p n t1 = Inr t'"
    by (auto split: sum.splits)
  from timed_step_is_step [OF t1(1)] obtain ev where
    ev: "step p ev (state t) = Inr (state t1)" ..
  from callbacks_frozen_step [OF ev Suc.prems(2,3)]
  have f: "calls (state t1) = calls (state t)" "firstWordDone (state t1) = firstWordDone (state t)"
    "hasTypedOnce (state t1)" "0 < index (state t1) \<or> dir (state t1) = Back"
    by simp_all
  from Suc.IH [OF t1(2) f(3,4)] f(1,2) show ?case by simp
qed

text \<open>
  C4. The claim: each callback is invoked exactly once in the life of the engine,
  \<open>onFirstWordComplete\<close> when the word at index 0 is fully visible for the first time.
  With the page's words and speed 300 but hold 100, the word \<open>feed\<close> is fully visible at
  1200 ms, the next timer to run is the hold timeout at 1300 ms, and it switches the
  direction to \<open>Back\<close> without the bookkeeping of the tick: \<open>firstWordDone\<close> stays clear and
  \<open>onFirstWordComplete\<close> is not invoked, then or at any later time.
\<close>

theorem hold_timeout_skips_onFirstWordComplete:
  "timed_engine ((CampusLanding_Typewriter k c)\<lparr>hold := Some 100\<rparr>) 4 =
     Inr \<lparr>state =
       \<lparr>index = 0, sub = 4, dir = Fwd, hasTypedOnce = True, firstWordDone = False,
        calls = [k]\<rparr>,
      clock = 1200, interval_due = 1500, timeout_due = Some 1300\<rparr>
   \<and> next_event
     \<lparr>state =
       \<lparr>index = 0, sub = 4, dir = Fwd, hasTypedOnce = True, firstWordDone = False,
        calls = [k]\<rparr>,
      clock = 1200, interval_due = 1500, timeout_due = Some 1300\<rparr> = (HoldTimeout, 1300)
   \<and> timed_engine ((CampusLanding_Typewriter k c)\<lparr>hold := Some 100\<rparr>) 5 =
     Inr \<lparr>state =
       \<lparr>index = 0, sub = 4, dir = Back, hasTypedOnce = True, firstWordDone = False,
        calls = [k]\<rparr>,
      clock = 1300, interval_due = 1450, timeout_due = None\<rparr>
   \<and> (\<forall>n t'. timed_run ((CampusLanding_Typewriter k c)\<lparr>hold := Some 100\<rparr>) n
     \<lparr>state =
       \<lparr>index = 0, sub = 4, dir = Back, hasTypedOnce = True, firstWordDone = False,
        calls = [k]\<rparr>,
      clock = 1300, interval_due = 1450, timeout_due = None\<rparr> = Inr t' \<longrightarrow>
        calls (state t') = [k] \<and> \<not> firstWordDone (state t'))"
proof -
  have A: "timed_engine ((CampusLanding_Typewriter k c)\<lparr>hold := Some 100\<rparr>) 4 =
     Inr \<lparr>state =
       \<lparr>index = 0, sub = 4, dir = Fwd, hasTypedOnce = True, firstWordDone = False,
        calls = [k]\<rparr>,
      clock = 1200, interval_due = 1500, timeout_due = Some 1300\<rparr>"
    and B: "timed_engine ((CampusLanding_Typewriter k c)\<lparr>hold := Some 100\<rparr>) 5 =
     Inr \<lparr>state =
       \<lparr>index = 0, sub = 4, dir = Back, hasTypedOnce = True, firstWordDone = False,
        calls = [k]\<rparr>,
      clock = 1300, interval_due = 1450, timeout_due = None\<rparr>"
    by (simp_all add: timed_engine_def short_hold_mount short_hold_timed1 short_hold_timed2
        short_hold_timed3 short_hold_timed4 short_hold_timed5 numeral_eq_Suc)
  have C: "next_event
     \<lparr>state =
       \<lparr>index = 0, sub = 4, dir = Fwd, hasTypedOnce = True, firstWordDone = False,
        calls = [k]\<rparr>,
      clock = 1200, interval_due = 1500, timeout_due = Some 1300\<rparr> = (HoldTimeout, 1300)"
    by (simp add: next_event_def)
  have D: "\<forall>n t'. timed_run ((CampusLanding_Typewriter k c)\<lparr>hold := Some 100\<rparr>) n
     \<lparr>state =
       \<lparr>index = 0, sub = 4, dir = Back, hasTypedOnce = True, firstWordDone = False,
        calls = [k]\<rparr>,
      clock = 1300, interval_due = 1450, timeout_due = None\<rparr> = Inr t' \<longrightarrow>
        calls (state t') = [k] \<and> \<not> firstWordDone (state t')"
  proof (intro allI impI)
    fix n t'
    assume "timed_run ((CampusLanding_Typewriter k c)\<lparr>hold := Some 100\<rparr>) n
     \<lparr>state =
       \<lparr>index = 0, sub = 4, dir = Back, hasTypedOnce = True, firstWordDone = False,
        calls = [k]\<rparr>,
      clock = 1300, interval_due = 1450, timeout_due = None\<rparr> = Inr t'"
    from callbacks_frozen_timed [OF this]
    show "calls (state t') = [k] \<and> \<not> firstWordDone (state t')" by simp
  qed
  show ?thesis by (intro conjI A B C D)
qed

theorem hold_timeout_skips_onFirstWordComplete_witness:
  "timed_run ((CampusLanding_Typewriter (0::nat) 1)\<lparr>hold := Some 100\<rparr>) 5
     \<lparr>state =
       \<lparr>index = 0, sub = 4, dir = Back, hasTypedOnce = True, firstWordDone = False,
        calls = [0::nat]\<rparr>,
      clock = 1300, interval_due = 1450, timeout_due = None\<rparr> =
     Inr \<lparr>state =
       \<lparr>index = 1, sub = 0, dir = Fwd, hasTypedOnce = True, firstWordDone = False,
        calls = [0::nat]\<rparr>,
      clock = 2050, interval_due = 2350, timeout_due = None\<rparr>
   \<and> calls (state
     \<lparr>state =
       \<lparr>index = 1, sub = 0, dir = Fwd, hasTypedOnce = True, firstWordDone = False,
        calls = [0::nat]\<rparr>,
      clock = 2050, interval_due = 2350, timeout_due = None\<rparr>) = [0]
   \<and> \<not> firstWordDone (state
     \<lparr>state =
       \<lparr>index = 1, sub = 0, dir = Fwd, hasTypedOnce = True, firstWordDone = False,
        calls = [0::nat]\<rparr>,
      clock = 2050, interval_due = 2350, timeout_due = None\<rparr>)"
proof -
  let ?Q = "(CampusLanding_Typewriter (0::nat) 1)\<lparr>hold := Some 100\<rparr>"
  have r: "timed_run ?Q 5
     \<lparr>state =
       \<lparr>index = 0, sub = 4, dir = Back, hasTypedOnce = True, firstWordDone = False,
        calls = [0::nat]\<rparr>,
      clock = 1300, interval_due = 1450, timeout_due = None\<rparr> =
     Inr \<lparr>state =
       \<lparr>index = 1, sub = 0, dir = Fwd, hasTypedOnce = True, firstWordDone = False,
        calls = [0::nat]\<rparr>,
      clock = 2050, interval_due = 2350, timeout_due = None\<rparr>"
    by (simp add: short_hold_timed6 short_hold_timed7 short_hold_timed8 short_hold_timed9
          short_hold_timed10 numeral_eq_Suc)
  from hold_timeout_skips_onFirstWordComplete [of 0 1] r
  have "calls (state
     \<lparr>state =
       \<lparr>index = 1, sub = 0, dir = Fwd, hasTypedOnce = True, firstWordDone = False,
        calls = [0::nat]\<rparr>,
      clock = 2050, interval_due = 2350, timeout_due = None\<rparr>) = [0]
   \<and> \<not> firstWordDone (state
     \<lparr>state =
       \<lparr>index = 1, sub = 0, dir = Fwd, hasTypedOnce = True, firstWordDone = False,
        calls = [0::nat]\<rparr>,
      clock = 2050, interval_due = 2350, timeout_due = None\<rparr>)"
    by blast
  with r show ?thesis by simp
qed

lemma timed_step_next_tick:
  assumes "timed_step p t = Inr t'" and "fst (next_event t) = Tick"
  shows "interval_due t' = clock t' + interval_delay p (dir (state t'))"
    and "clock t' = interval_due t"
proof -
  obtain ev due where ne: "next_event t = (ev, due)" by (cases "next_event t")
  with assms(2) have ev: "ev = Tick" by simp
  have due: "due = interval_due t"
    using ne ev by (auto simp: next_event_def split: option.splits if_splits)
  from assms(1) obtain r s' r' where
    r: "Typewriter p (state t) = Inr r" and s': "step p Tick (state t) = Inr s'"
    and r': "Typewriter p s' = Inr r'"
    and t': "t' = \<lparr>state = s', clock = due,
                 interval_due = (if delay r' \<noteq> delay r then due + delay r'
                                 else interval_due t + delay r),
                 timeout_due = (if hold_deps r' \<noteq> hold_deps r then hold_effect due r'
                                else timeout_due t)\<rparr>"
    unfolding timed_step_def ne ev by (auto split: sum.splits)
  have d: "delay r' = interval_delay p (dir s')"
    using r' by (auto simp: Typewriter_def split: option.splits)
  show "interval_due t' = clock t' + interval_delay p (dir (state t'))"
    unfolding t' using d due by simp
  show "clock t' = interval_due t"
    unfolding t' using due by simp
qed

text \<open>
  C9. The delay of the interval is \<open>speed\<close> in direction \<open>Fwd\<close> and \<open>speed * 0.5\<close> in
  direction \<open>Back\<close>, half of it. Every render hands this delay to \<open>useInterval\<close>; after
  mounting and after every tick the next tick is due exactly one such delay later, and two
  ticks with no hold timeout between them are this delay apart.
\<close>

theorem tick_interval_by_direction:
  "interval_delay p Fwd = speed_of p
   \<and> interval_delay p Back = speed_of p * (1 / 2)
   \<and> 2 * interval_delay p Back = interval_delay p Fwd
   \<and> (\<forall>s r. Typewriter p s = Inr r \<longrightarrow> delay r = interval_delay p (dir s))
   \<and> (\<forall>t. mount_timed p = Inr t \<longrightarrow>
          interval_due t = clock t + interval_delay p (dir (state t)))
   \<and> (\<forall>t t'. timed_step p t = Inr t' \<and> fst (next_event t) = Tick \<longrightarrow>
          interval_due t' = clock t' + interval_delay p (dir (state t')))
   \<and> (\<forall>t t' t''. timed_step p t = Inr t' \<and> fst (next_event t) = Tick
          \<and> timed_step p t' = Inr t'' \<and> fst (next_event t') = Tick \<longrightarrow>
          clock t'' - clock t' = interval_delay p (dir (state t')))"
proof -
  have A: "\<forall>s r. Typewriter p s = Inr r \<longrightarrow> delay r = interval_delay p (dir s)"
    by (auto simp: Typewriter_def split: option.splits)
  have B: "\<forall>t. mount_timed p = Inr t \<longrightarrow>
          interval_due t = clock t + interval_delay p (dir (state t))"
    by (auto simp: mount_timed_def mount_def Typewriter_def keystroke_effect_def init_def
          split: sum.splits option.splits)
  have C: "\<forall>t t'. timed_step p t = Inr t' \<and> fst (next_event t) = Tick \<longrightarrow>
          interval_due t' = clock t' + interval_delay p (dir (state t'))"
    using timed_step_next_tick(1) by blast
  have D: "\<forall>t t' t''. timed_step p t = Inr t' \<and> fst (next_event t) = Tick
          \<and> timed_step p t' = Inr t'' \<and> fst (next_event t') = Tick \<longrightarrow>
          clock t'' - clock t' = interval_delay p (dir (state t'))"
  proof (intro allI impI, elim conjE)
    fix t t' t'' :: "'a timed"
    assume 1: "timed_step p t = Inr t'" "fst (next_event t) = Tick"
      and 2: "timed_step p t' = Inr t''" "fst (next_event t') = Tick"
    from timed_step_next_tick(1) [OF 1] timed_step_next_tick(2) [OF 2]
    show "clock t'' - clock t' = interval_delay p (dir (state t'))" by simp
  qed
  have E: "interval_delay p Fwd = speed_of p" "interval_delay p Back = speed_of p * (1 / 2)"
    "2 * interval_delay p Back = interval_delay p Fwd"
    by (simp_all add: interval_delay_def)
  show ?thesis by (intro conjI A B C D E)
qed

theorem tick_interval_by_direction_witness:
  "timed_step (CampusLanding_Typewriter (0::nat) 1)
     \<lparr>state =
       \<lparr>index = 0, sub = 4, dir = Back, hasTypedOnce = True, firstWordDone = True,
        calls = [0::nat, 1]\<rparr>,
      clock = 1500, interval_due = 1650, timeout_due = None\<rparr> =
     Inr \<lparr>state =
       \<lparr>index = 0, sub = 3, dir = Back, hasTypedOnce = True, firstWordDone = True,
        calls = [0::nat, 1]\<rparr>,
      clock = 1650, interval_due = 1800, timeout_due = None\<rparr>
   \<and> fst (next_event
     \<lparr>state =
       \<lparr>index = 0, sub = 4, dir = Back, hasTypedOnce = True, firstWordDone = True,
        calls = [0::nat, 1]\<rparr>,
      clock = 1500, interval_due = 1650, timeout_due = None\<rparr>) = Tick
   \<and> timed_step (CampusLanding_Typewriter (0::nat) 1)
     \<lparr>state =
       \<lparr>index = 0, sub = 3, dir = Back, hasTypedOnce = True, firstWordDone = True,
        calls = [0::nat, 1]\<rparr>,
      clock = 1650, interval_due = 1800, timeout_due = None\<rparr> =
     Inr \<lparr>state =
       \<lparr>index = 0, sub = 2, dir = Back, hasTypedOnce = True, firstWordDone = True,
        calls = [0::nat, 1]\<rparr>,
      clock = 1800, interval_due = 1950, timeout_due = None\<rparr>
   \<and> fst (next_event
     \<lparr>state =
       \<lparr>index = 0, sub = 3, dir = Back, hasTypedOnce = True, firstWordDone = True,
        calls = [0::nat, 1]\<rparr>,
      clock = 1650, interval_due = 1800, timeout_due = None\<rparr>) = Tick
   \<and> clock
     \<lparr>state =
       \<lparr>index = 0, sub = 2, dir = Back, hasTypedOnce = True, firstWordDone = True,
        calls = [0::nat, 1]\<rparr>,
      clock = 1800, interval_due = 1950, timeout_due = None\<rparr>
     - clock
     \<lparr>state =
       \<lparr>index = 0, sub = 3, dir = Back, hasTypedOnce = True, firstWordDone = True,
        calls = [0::nat, 1]\<rparr>,
      clock = 1650, interval_due = 1800, timeout_due = None\<rparr>
     = interval_delay (CampusLanding_Typewriter (0::nat) 1) Back
   \<and> interval_delay (CampusLanding_Typewriter (0::nat) 1) Back = 150"
proof -
  let ?P = "CampusLanding_Typewriter (0::nat) 1"
  let ?T5 = "\<lparr>state =
       \<lparr>index = 0, sub = 4, dir = Back, hasTypedOnce = True, firstWordDone = True,
        calls = [0::nat, 1]\<rparr>,
      clock = 1500, interval_due = 1650, timeout_due = None\<rparr>"
  let ?T6 = "\<lparr>state =
       \<lparr>index = 0, sub = 3, dir = Back, hasTypedOnce = True, firstWordDone = True,
        calls = [0::nat, 1]\<rparr>,
      clock = 1650, interval_due = 1800, timeout_due = None\<rparr>"
  let ?T7 = "\<lparr>state =
       \<lparr>index = 0, sub = 2, dir = Back, hasTypedOnce = True, firstWordDone = True,
        calls = [0::nat, 1]\<rparr>,
      clock = 1800, interval_due = 1950, timeout_due = None\<rparr>"
  have a: "timed_step ?P ?T5 = Inr ?T6" by (rule landing_timed6)
  have b: "fst (next_event ?T5) = Tick" by (simp add: next_event_def)
  have c: "timed_step ?P ?T6 = Inr ?T7" by (rule landing_timed7)
  have d: "fst (next_event ?T6) = Tick" by (simp add: next_event_def)
  have D: "\<forall>t t' t''. timed_step ?P t = Inr t' \<and> fst (next_event t) = Tick
          \<and> timed_step ?P t' = Inr t'' \<and> fst (next_event t') = Tick \<longrightarrow>
          clock t'' - clock t' = interval_delay ?P (dir (state t'))"
    using tick_interval_by_direction [of ?P] by (elim conjE)
  have e: "clock ?T7 - clock ?T6 = interval_delay ?P (dir (state ?T6))"
    by (rule D [rule_format, OF conjI [OF a conjI [OF b conjI [OF c d]]]])
  have f: "interval_delay ?P Back = 150" by (simp add: landing_eval)
  from a b c d e f show ?thesis by simp
qed

section \<open>The intro sequence and the empty list\<close>

lemma phase_history_cases:
  assumes "0 < d1" "d1 < d2"
  shows "phase_history (intro_timers d1 d2) t =
           (if t < d1 then [Whatif] else if t < d2 then [Whatif, Dots] else [Whatif, Dots, Typing])"
  using assms
  by (simp add: phase_history_def fired_by_def intro_timers_def max_def)

text \<open>
  C6. With both timeouts set at time 0 and \<open>0 < d1 < d2\<close>, the phase is \<open>Whatif\<close> at time
  0 and until \<open>d1\<close>, \<open>Dots\<close> from \<open>d1\<close> until \<open>d2\<close>, and \<open>Typing\<close> from \<open>d2\<close> on. The
  page has then been in exactly the phases \<open>Whatif\<close>, \<open>Dots\<close>, \<open>Typing\<close>, in this order,
  and nothing changes afterwards; the phase never goes back.
\<close>

theorem intro_phase_schedule:
  assumes "0 < d1" "d1 < d2"
  shows "phase_at (intro_timers d1 d2) 0 = Whatif
    \<and> (\<forall>t. t < d1 \<longrightarrow> phase_at (intro_timers d1 d2) t = Whatif)
    \<and> (\<forall>t. d1 \<le> t \<and> t < d2 \<longrightarrow> phase_at (intro_timers d1 d2) t = Dots)
    \<and> (\<forall>t. d2 \<le> t \<longrightarrow> phase_at (intro_timers d1 d2) t = Typing
           \<and> phase_history (intro_timers d1 d2) t = [Whatif, Dots, Typing])
    \<and> (\<forall>t t'. t \<le> t' \<longrightarrow>
           phase_rank (phase_at (intro_timers d1 d2) t)
           \<le> phase_rank (phase_at (intro_timers d1 d2) t'))"
  using assms by (simp add: phase_at_def phase_history_cases)

theorem intro_phase_schedule_witness:
  "(0::rat) < 1200 \<and> (1200::rat) < 2200
   \<and> CampusLanding_intro = intro_timers 1200 2200
   \<and> phase_at CampusLanding_intro 0 = Whatif
   \<and> phase_at CampusLanding_intro 1200 = Dots
   \<and> phase_at CampusLanding_intro 2199 = Dots
   \<and> phase_at CampusLanding_intro 2200 = Typing
   \<and> phase_history CampusLanding_intro 5000 = [Whatif, Dots, Typing]"
proof -
  have h: "(0::rat) < 1200" "(1200::rat) < 2200" by simp_all
  from intro_phase_schedule [OF h]
  have a: "phase_at (intro_timers 1200 2200) 0 = Whatif"
    and b: "\<forall>t. 1200 \<le> t \<and> t < 2200 \<longrightarrow> phase_at (intro_timers 1200 2200) t = Dots"
    and c: "\<forall>t. 2200 \<le> t \<longrightarrow> phase_at (intro_timers 1200 2200) t = Typing
           \<and> phase_history (intro_timers 1200 2200) t = [Whatif, Dots, Typing]"
    by blast+
  from b have b1: "phase_at (intro_timers 1200 2200) 1200 = Dots"
    and b2: "phase_at (intro_timers 1200 2200) 2199 = Dots" by simp_all
  from c have c1: "phase_at (intro_timers 1200 2200) 2200 = Typing"
    and c2: "phase_history (intro_timers 1200 2200) 5000 = [Whatif, Dots, Typing]" by simp_all
  show ?thesis using a b1 b2 c1 c2 by (simp add: CampusLanding_intro_def)
qed

text \<open>
  C8. With an empty word list the first render throws a \<open>TypeError\<close> (\<open>current\<close> is
  \<open>undefined\<close> and the dependency array of the hold effect reads \<open>current.length\<close>), so
  mounting fails: no state, no interval and no timeout is created, and no event is ever
  handled. Mounting succeeds exactly for a non-empty list.
\<close>

theorem empty_word_list_rejected:
  "Typewriter (p\<lparr>words := []\<rparr>) init = Inl TypeError
   \<and> mount (p\<lparr>words := []\<rparr>) = Inl TypeError
   \<and> engine (p\<lparr>words := []\<rparr>) evs = Inl TypeError
   \<and> mount_timed (p\<lparr>words := []\<rparr>) = Inl TypeError
   \<and> timed_engine (p\<lparr>words := []\<rparr>) n = Inl TypeError
   \<and> ((\<exists>s. mount p = Inr s) = (words p \<noteq> []))"
  by (auto simp: Typewriter_def current_def mount_def engine_def mount_timed_def timed_engine_def
        split: sum.splits)

end
